theory Spec2Isabelle
  imports Main "HOL-Library.Word"
begin

section \<open>The bounded stream-compression adapter of gnutls_compress_int.c\<close>

text \<open>
  A shallow embedding of \<^verbatim>\<open>src/daemon/https/tls/gnutls_compress_int.c\<close>:
  \<^verbatim>\<open>mhd_gtls_comp_init\<close>, \<^verbatim>\<open>mhd_gtls_compress\<close> and \<^verbatim>\<open>mhd_gtls_decompress\<close>, with the
  branches under \<^verbatim>\<open>HAVE_LIBZ\<close> compiled in (the deflate-family engine is what the
  specification describes).

  Integer types are those of an LP64 platform: \<^verbatim>\<open>size_t\<close> and \<^verbatim>\<open>uLongf\<close> are
  64-bit unsigned, \<^verbatim>\<open>uInt\<close> is 32-bit unsigned, \<^verbatim>\<open>int\<close> is 32-bit two's complement
  (a \<open>32 word\<close> read with \<open>sint\<close>). Conversions are written out: \<open>ucast\<close> truncates or
  zero-extends, \<open>scast\<close> sign-extends.
\<close>

type_synonym size_t = "64 word"
type_synonym uLongf = "64 word"
type_synonym uInt = "32 word"
type_synonym c_int = "32 word"

subsection \<open>Constants of headers that are not part of the file\<close>

text \<open>
  Modelled from the spec: the failure codes are macros of \<^verbatim>\<open>gnutls.h\<close>, which is not
  under src/. The spec names the failures (CompressionFailed, DecompressionFailed,
  OutOfMemory, InvalidHandle as an internal error) and takes success to be a non-negative
  length; the values are the negative, pairwise distinct ones of GnuTLS.
\<close>

definition GNUTLS_E_COMPRESSION_FAILED :: c_int where
  "GNUTLS_E_COMPRESSION_FAILED = - 27"

definition GNUTLS_E_DECOMPRESSION_FAILED :: c_int where
  "GNUTLS_E_DECOMPRESSION_FAILED = - 26"

definition GNUTLS_E_MEMORY_ERROR :: c_int where
  "GNUTLS_E_MEMORY_ERROR = - 25"

definition GNUTLS_E_INTERNAL_ERROR :: c_int where
  "GNUTLS_E_INTERNAL_ERROR = - 59"

text \<open>
  Modelled from the spec: the status vocabulary of the engine (\<^verbatim>\<open>zlib.h\<close>, not under
  src/): OK, buffer-exhausted and the flush-to-byte-boundary directive.
\<close>

definition Z_OK :: c_int where
  "Z_OK = 0"

definition Z_BUF_ERROR :: c_int where
  "Z_BUF_ERROR = - 5"

definition Z_SYNC_FLUSH :: c_int where
  "Z_SYNC_FLUSH = 2"

text \<open>
  The sizes of the two structures, as an LP64 compiler lays them out. They are only
  passed to the allocator.
\<close>

definition sizeof_comp_hd_t_STRUCT :: size_t where
  "sizeof_comp_hd_t_STRUCT = 16"

definition sizeof_z_stream :: size_t where
  "sizeof_z_stream = 112"

subsection \<open>Data\<close>

text \<open>
  A pointer is null or a block of the store with a byte offset into it. The bytes
  themselves are read and written by the engine only, and stay inside the engine's
  behaviour; the store keeps what the adapter itself decides: which blocks are live,
  how large they are, and the fields of the two structures.
\<close>

datatype ptr = NULL | Ptr nat int

fun ptr_add :: "ptr \<Rightarrow> int \<Rightarrow> ptr" where
  "ptr_add NULL k = NULL"
| "ptr_add (Ptr b off) k = Ptr b (off + k)"

datatype CompressionMethod = MHD_GNUTLS_COMP_NULL | MHD_GNUTLS_COMP_DEFLATE

text \<open>
  The fields of \<^verbatim>\<open>z_stream\<close> that the adapter touches; \<open>internal\<close> stands for the
  rest of the stream (the engine's own state).
\<close>

record 'z z_stream =
  next_in :: ptr
  avail_in :: uInt
  next_out :: ptr
  avail_out :: uInt
  internal :: 'z

record comp_hd_t_STRUCT =
  handle :: ptr
  algo :: CompressionMethod

datatype 'z obj = Raw size_t | Hd comp_hd_t_STRUCT | Zs "'z z_stream"

text \<open>
  The store. Block \<open>b\<close> is \<open>blocks ! b\<close>; a released block is \<open>None\<close>, and a new block is
  appended, so that a block id is never handed out twice. \<open>alloc_ok\<close> scripts the
  allocator: each request consumes one entry and fails exactly when the entry is
  \<open>False\<close> (an exhausted script lets every request succeed). \<open>alloc_log\<close> records every
  request with its size and outcome.
\<close>

record 'z memory =
  blocks :: "'z obj option list"
  alloc_ok :: "bool list"
  alloc_log :: "(size_t \<times> bool) list"

definition lookup :: "'z memory \<Rightarrow> nat \<Rightarrow> 'z obj option" where
  "lookup m b = (if b < length (blocks m) then blocks m ! b else None)"

definition next_ok :: "'z memory \<Rightarrow> bool" where
  "next_ok m = (case alloc_ok m of [] \<Rightarrow> True | ok # _ \<Rightarrow> ok)"

subsection \<open>The allocator\<close>

text \<open>
  Modelled from the spec: \<^verbatim>\<open>gnutls_malloc\<close> and \<^verbatim>\<open>gnutls_free\<close> are the library's
  allocator hooks, not under src/: "a fallible allocator returning null on failure".
  Every \<^verbatim>\<open>gnutls_free\<close> of the file is applied to a null pointer or to the base of a
  block allocated before.
\<close>

definition gnutls_malloc :: "'z memory \<Rightarrow> size_t \<Rightarrow> ptr \<times> 'z memory" where
  "gnutls_malloc m n =
     (if next_ok m
      then (Ptr (length (blocks m)) 0,
            m\<lparr>blocks := blocks m @ [Some (Raw n)],
              alloc_ok := tl (alloc_ok m),
              alloc_log := alloc_log m @ [(n, True)]\<rparr>)
      else (NULL,
            m\<lparr>alloc_ok := tl (alloc_ok m),
              alloc_log := alloc_log m @ [(n, False)]\<rparr>))"

fun gnutls_free :: "'z memory \<Rightarrow> ptr \<Rightarrow> 'z memory" where
  "gnutls_free m NULL = m"
| "gnutls_free m (Ptr b off) = m\<lparr>blocks := (blocks m)[b := None]\<rparr>"

text \<open>
  Modelled from the spec: \<^verbatim>\<open>mhd_gtls_realloc_fast\<close> is defined in another file of the
  repository, not under src/. "Each growth step creates a new owned buffer state
  (conceptually), and failure at any growth step must release the buffer before
  returning": on success the old block is gone and a block of the new size is returned,
  on failure the old block is released and the result is null.
\<close>

definition mhd_gtls_realloc_fast :: "'z memory \<Rightarrow> ptr \<Rightarrow> size_t \<Rightarrow> ptr \<times> 'z memory" where
  "mhd_gtls_realloc_fast m p n = gnutls_malloc (gnutls_free m p) n"

subsection \<open>Reading and writing the structures\<close>

text \<open>
  Dereferencing a pointer that is not the base of a live structure of the right type is
  undefined behaviour in C; the accessors return \<open>None\<close> there and the operations
  below return \<open>Undefined\<close>.
\<close>

datatype 'a run = Returns 'a | Undefined | Diverges

fun get_hd :: "'z memory \<Rightarrow> ptr \<Rightarrow> comp_hd_t_STRUCT option" where
  "get_hd m NULL = None"
| "get_hd m (Ptr b off) =
     (if off = 0 then (case lookup m b of Some (Hd h) \<Rightarrow> Some h | _ \<Rightarrow> None) else None)"

fun get_zs :: "'z memory \<Rightarrow> ptr \<Rightarrow> 'z z_stream option" where
  "get_zs m NULL = None"
| "get_zs m (Ptr b off) =
     (if off = 0 then (case lookup m b of Some (Zs z) \<Rightarrow> Some z | _ \<Rightarrow> None) else None)"

fun put_obj :: "'z memory \<Rightarrow> ptr \<Rightarrow> 'z obj \<Rightarrow> 'z memory" where
  "put_obj m NULL x = m"
| "put_obj m (Ptr b off) x = m\<lparr>blocks := (blocks m)[b := Some x]\<rparr>"

subsection \<open>The engine and the parameter table\<close>

text \<open>
  The compression engine (zlib) and the algorithm parameter table are external: they are
  parameters of the model. A transform call takes the stream and the flush directive and
  returns its status and the stream after the call. An initialisation call returns its
  status and the stream as it leaves it.
\<close>

type_synonym 'z transform = "'z z_stream \<Rightarrow> c_int \<Rightarrow> c_int \<times> 'z z_stream"

record 'z engine =
  inflateInit2 :: "int \<Rightarrow> c_int \<times> 'z z_stream"
  deflateInit2 :: "int \<Rightarrow> int \<Rightarrow> int \<Rightarrow> c_int \<times> 'z z_stream"
  get_wbits :: "CompressionMethod \<Rightarrow> int"
  get_mem_level :: "CompressionMethod \<Rightarrow> int"
  get_comp_level :: "CompressionMethod \<Rightarrow> int"

subsection \<open>mhd_gtls_comp_init\<close>

definition mhd_gtls_comp_init ::
  "'z engine \<Rightarrow> CompressionMethod \<Rightarrow> bool \<Rightarrow> 'z memory \<Rightarrow> ptr \<times> 'z memory" where
  "mhd_gtls_comp_init E method d m =
     (case gnutls_malloc m sizeof_comp_hd_t_STRUCT of (ret, m1) \<Rightarrow>
      if ret = NULL then (NULL, m1)
      else
        let m2 = put_obj m1 ret (Hd \<lparr>handle = NULL, algo = method\<rparr>) in
        (case method of
           MHD_GNUTLS_COMP_DEFLATE \<Rightarrow>
             let window_bits = get_wbits E method;
                 mem_level = get_mem_level E method;
                 comp_level = get_comp_level E method
             in (case gnutls_malloc m2 sizeof_z_stream of (zhandle, m3) \<Rightarrow>
                 let m4 = put_obj m3 ret (Hd \<lparr>handle = zhandle, algo = method\<rparr>) in
                 if zhandle = NULL then (NULL, gnutls_free m4 ret)
                 else
                   (case (if d then inflateInit2 E window_bits
                          else deflateInit2 E comp_level window_bits mem_level) of
                      (err, z) \<Rightarrow>
                        let m5 = put_obj m4 zhandle (Zs z) in
                        if err \<noteq> Z_OK
                        then (NULL, gnutls_free (gnutls_free m5 zhandle) ret)
                        else (ret, m5)))
         | MHD_GNUTLS_COMP_NULL \<Rightarrow> (ret, m2)))"

subsection \<open>mhd_gtls_compress\<close>

text \<open>
  The result of a call is the returned \<^verbatim>\<open>int\<close>, the value of the caller's output pointer
  (\<^verbatim>\<open>*compressed\<close>, \<^verbatim>\<open>*plain\<close>) after the call, and the store. The \<^verbatim>\<open>switch\<close> either
  returns from the function or breaks with a length for the check after it.
\<close>

datatype 'a switch = Return 'a | Break 'a

definition compress_switch ::
  "'z transform \<Rightarrow> ptr \<Rightarrow> ptr \<Rightarrow> size_t \<Rightarrow> ptr \<Rightarrow> 'z memory
     \<Rightarrow> (c_int \<times> ptr \<times> 'z memory) switch run" where
  "compress_switch deflate hdl plain plain_size compressed m =
     (case get_hd m hdl of
        None \<Rightarrow> Undefined
      | Some h \<Rightarrow>
         (case algo h of
            MHD_GNUTLS_COMP_DEFLATE \<Rightarrow>
              let size = (plain_size + plain_size) + 10 in
              (case gnutls_malloc m size of (compressed1, m1) \<Rightarrow>
                 if compressed1 = NULL
                 then Returns (Return (GNUTLS_E_MEMORY_ERROR, compressed1, m1))
                 else
                   (case get_zs m1 (handle h) of
                      None \<Rightarrow> Undefined
                    | Some z \<Rightarrow>
                       (case deflate (z\<lparr>next_in := plain, avail_in := ucast plain_size,
                                        next_out := compressed1, avail_out := ucast size\<rparr>)
                               Z_SYNC_FLUSH of
                          (err, z') \<Rightarrow>
                            let m2 = put_obj m1 (handle h) (Zs z') in
                            if err \<noteq> Z_OK \<or> avail_in z' \<noteq> 0
                            then Returns (Return (GNUTLS_E_COMPRESSION_FAILED, NULL,
                                                  gnutls_free m2 compressed1))
                            else Returns (Break (ucast (size - ucast (avail_out z')),
                                                 compressed1, m2)))))
          | MHD_GNUTLS_COMP_NULL \<Rightarrow>
              Returns (Return (GNUTLS_E_INTERNAL_ERROR, compressed, m))))"

definition mhd_gtls_compress ::
  "'z transform \<Rightarrow> ptr \<Rightarrow> ptr \<Rightarrow> size_t \<Rightarrow> ptr \<Rightarrow> size_t \<Rightarrow> 'z memory
     \<Rightarrow> (c_int \<times> ptr \<times> 'z memory) run" where
  "mhd_gtls_compress deflate hdl plain plain_size compressed max_comp_size m =
     (if hdl = NULL then Returns (GNUTLS_E_INTERNAL_ERROR, compressed, m)
      else
        (case compress_switch deflate hdl plain plain_size compressed m of
           Undefined \<Rightarrow> Undefined
         | Diverges \<Rightarrow> Diverges
         | Returns (Return r) \<Rightarrow> Returns r
         | Returns (Break (compressed_size, compressed1, m1)) \<Rightarrow>
             if (scast compressed_size :: size_t) > max_comp_size
             then Returns (GNUTLS_E_COMPRESSION_FAILED, NULL, gnutls_free m1 compressed1)
             else Returns (compressed_size, compressed1, m1)))"

subsection \<open>mhd_gtls_decompress\<close>

text \<open>
  The \<^verbatim>\<open>do ... while\<close> loop. It leaves either by the \<^verbatim>\<open>return\<close> after a failed
  reallocation or by its condition, with the last status of the engine. The loop has no
  bound of its own, so it is a partial function: \<open>None\<close> is a loop that runs forever.
  \<^verbatim>\<open>err\<close> and \<^verbatim>\<open>cur_pos\<close> are not declared in the file; they are \<^verbatim>\<open>int\<close>s here, as
  the status and the lengths returned are. \<^verbatim>\<open>cur_pos\<close> only enters the remaining-space
  counter, which is 32 bits wide.
\<close>

datatype 'z loop_exit =
  NoMemory "'z z_stream" (exit_memory: "'z memory")
| Left c_int "'z z_stream" ptr uLongf (exit_memory: "'z memory")

partial_function (option) inflate_loop ::
  "'z transform \<Rightarrow> size_t \<Rightarrow> 'z z_stream \<Rightarrow> ptr \<Rightarrow> uLongf \<Rightarrow> c_int \<Rightarrow> 'z memory
     \<Rightarrow> 'z loop_exit option" where
  "inflate_loop inflate max_record_size z plain out_size cur_pos m =
     (case mhd_gtls_realloc_fast m plain (out_size + 512) of (plain1, m1) \<Rightarrow>
        if plain1 = NULL then Some (NoMemory z m1)
        else
          (case inflate (z\<lparr>next_out := ptr_add plain1 (sint cur_pos),
                           avail_out := ucast ((out_size + 512) - scast cur_pos)\<rparr>)
                  Z_SYNC_FLUSH of
             (err, z') \<Rightarrow>
               if (err = Z_BUF_ERROR \<and> avail_out z' = 0 \<and> out_size + 512 < max_record_size)
                  \<or> (err = Z_OK \<and> avail_in z' \<noteq> 0)
               then inflate_loop inflate max_record_size z' plain1 (out_size + 512)
                      (ucast ((out_size + 512) - ucast (avail_out z'))) m1
               else Some (Left err z' plain1 (out_size + 512) m1)))"

declare inflate_loop.simps [code]

definition decompress_switch ::
  "'z transform \<Rightarrow> ptr \<Rightarrow> ptr \<Rightarrow> size_t \<Rightarrow> ptr \<Rightarrow> size_t \<Rightarrow> 'z memory
     \<Rightarrow> (c_int \<times> ptr \<times> 'z memory) switch run" where
  "decompress_switch inflate hdl compressed compressed_size plain max_record_size m =
     (case get_hd m hdl of
        None \<Rightarrow> Undefined
      | Some h \<Rightarrow>
         (case algo h of
            MHD_GNUTLS_COMP_DEFLATE \<Rightarrow>
              (case get_zs m (handle h) of
                 None \<Rightarrow> Undefined
               | Some z \<Rightarrow>
                  (case inflate_loop inflate max_record_size
                          (z\<lparr>next_in := compressed, avail_in := ucast compressed_size\<rparr>)
                          NULL (compressed_size + compressed_size) 0 m of
                     None \<Rightarrow> Diverges
                   | Some (NoMemory z' m1) \<Rightarrow>
                       Returns (Return (GNUTLS_E_MEMORY_ERROR, NULL,
                                        put_obj m1 (handle h) (Zs z')))
                   | Some (Left err z' plain1 out_size m1) \<Rightarrow>
                       let m2 = put_obj m1 (handle h) (Zs z') in
                       if err \<noteq> Z_OK
                       then Returns (Return (GNUTLS_E_DECOMPRESSION_FAILED, NULL,
                                             gnutls_free m2 plain1))
                       else Returns (Break (ucast (out_size - ucast (avail_out z')),
                                            plain1, m2))))
          | MHD_GNUTLS_COMP_NULL \<Rightarrow>
              Returns (Return (GNUTLS_E_INTERNAL_ERROR, plain, m))))"

text \<open>
  \<^verbatim>\<open>EXTRA_COMP_SIZE\<close> is a macro of a header that is not under src/; it is the first
  parameter \<open>extra\<close>.
\<close>

definition mhd_gtls_decompress ::
  "size_t \<Rightarrow> 'z transform \<Rightarrow> ptr \<Rightarrow> ptr \<Rightarrow> size_t \<Rightarrow> ptr \<Rightarrow> size_t \<Rightarrow> 'z memory
     \<Rightarrow> (c_int \<times> ptr \<times> 'z memory) run" where
  "mhd_gtls_decompress extra inflate hdl compressed compressed_size plain max_record_size m =
     (if compressed_size > max_record_size + extra
      then Returns (GNUTLS_E_DECOMPRESSION_FAILED, plain, m)
      else if hdl = NULL then Returns (GNUTLS_E_INTERNAL_ERROR, plain, m)
      else
        (case decompress_switch inflate hdl compressed compressed_size plain
                max_record_size m of
           Undefined \<Rightarrow> Undefined
         | Diverges \<Rightarrow> Diverges
         | Returns (Return r) \<Rightarrow> Returns r
         | Returns (Break (plain_size, plain1, m1)) \<Rightarrow>
             if (scast plain_size :: size_t) > max_record_size
             then Returns (GNUTLS_E_DECOMPRESSION_FAILED, NULL, gnutls_free m1 plain1)
             else Returns (plain_size, plain1, m1)))"

subsection \<open>Contracts of the engine\<close>

text \<open>
  The engine reports "remaining-space counters": after a transform call the remaining
  output space is at most what the call was given.
\<close>

definition space_monotone :: "'z transform \<Rightarrow> bool" where
  "space_monotone t = (\<forall>z f. avail_out (snd (t z f)) \<le> avail_out z)"

text \<open>
  An engine makes progress when some measure \<open>\<mu>\<close> of the stream, which does not depend on
  the output cursor that the adapter sets before each call, strictly decreases on every
  call that reports OK and leaves input, and does not increase on a call that reports
  buffer-exhausted. The remaining input \<open>avail_in\<close> is such a measure for an engine that
  consumes at least one byte whenever it reports OK with input left.
\<close>

definition makes_progress :: "('z z_stream \<Rightarrow> nat) \<Rightarrow> 'z transform \<Rightarrow> bool" where
  "makes_progress \<mu> t =
     ((\<forall>z f. (fst (t z f) = Z_OK \<and> avail_in (snd (t z f)) \<noteq> 0 \<longrightarrow> \<mu> (snd (t z f)) < \<mu> z)
           \<and> (fst (t z f) = Z_BUF_ERROR \<longrightarrow> \<mu> (snd (t z f)) \<le> \<mu> z))
      \<and> (\<forall>z p a. \<mu> (z\<lparr>next_out := p, avail_out := a\<rparr>) = \<mu> z))"

text \<open>
  An engine that reports OK only once it has consumed all its input; whenever it stops
  for lack of output space, it says so with the buffer-exhausted status.
\<close>

definition input_done_when_ok :: "'z transform \<Rightarrow> bool" where
  "input_done_when_ok t = (\<forall>z f. fst (t z f) \<noteq> Z_OK \<or> avail_in (snd (t z f)) = 0)"

subsection \<open>Concrete engines and stores for the example calls\<close>

text \<open>
  A pass-through engine: each call moves as many bytes as both counters allow, and
  reports buffer-exhausted when input is left and nothing could be moved.
\<close>

definition store_transform :: "'z transform" where
  "store_transform z flush =
     (let n = min (avail_in z) (avail_out z) in
      (if avail_in z \<noteq> 0 \<and> n = 0 then Z_BUF_ERROR else Z_OK,
       z\<lparr>next_in := ptr_add (next_in z) (uint n), avail_in := avail_in z - n,
         next_out := ptr_add (next_out z) (uint n), avail_out := avail_out z - n\<rparr>))"

text \<open>An engine that reports OK and does nothing.\<close>

definition stall_transform :: "'z transform" where
  "stall_transform z flush = (Z_OK, z)"

text \<open>An engine that reports buffer-exhausted with no output space left, every time.\<close>

definition full_transform :: "'z transform" where
  "full_transform z flush = (Z_BUF_ERROR, z\<lparr>avail_out := 0\<rparr>)"

text \<open>
  An engine on a highly compressible stream: while it has input and output space, a call
  uses one input byte, fills the output space it was offered and reports OK; with no
  input or no space it reports buffer-exhausted.
\<close>

definition fill_transform :: "'z transform" where
  "fill_transform z flush =
     (if avail_in z = 0 \<or> avail_out z = 0 then (Z_BUF_ERROR, z)
      else (Z_OK, z\<lparr>next_in := ptr_add (next_in z) 1, avail_in := avail_in z - 1,
                     next_out := ptr_add (next_out z) (uint (avail_out z)),
                     avail_out := 0\<rparr>))"

text \<open>
  An engine whose initialisation succeeds, with the parameter table of the deflate
  method.
\<close>

definition demo_engine :: "unit engine" where
  "demo_engine =
     \<lparr>inflateInit2 = (\<lambda>window_bits. (Z_OK,
         \<lparr>next_in = NULL, avail_in = 0, next_out = NULL, avail_out = 0, internal = ()\<rparr>)),
      deflateInit2 = (\<lambda>level window_bits mem_level. (Z_OK,
         \<lparr>next_in = NULL, avail_in = 0, next_out = NULL, avail_out = 0, internal = ()\<rparr>)),
      get_wbits = (\<lambda>method. 15), get_mem_level = (\<lambda>method. 8),
      get_comp_level = (\<lambda>method. 6)\<rparr>"

text \<open>
  A store with one deflate-family handle (block 0) and its stream (block 1), as
  \<^verbatim>\<open>mhd_gtls_comp_init\<close> builds it; the same store with a scripted allocator; an empty
  store with a scripted allocator.
\<close>

definition demo_memory :: "unit memory" where
  "demo_memory =
     \<lparr>blocks = [Some (Hd \<lparr>handle = Ptr 1 0, algo = MHD_GNUTLS_COMP_DEFLATE\<rparr>),
                Some (Zs \<lparr>next_in = NULL, avail_in = 0, next_out = NULL, avail_out = 0,
                          internal = ()\<rparr>)],
      alloc_ok = [], alloc_log = []\<rparr>"

definition demo_memory_with :: "bool list \<Rightarrow> unit memory" where
  "demo_memory_with script = demo_memory\<lparr>alloc_ok := script\<rparr>"

definition empty_memory_with :: "bool list \<Rightarrow> unit memory" where
  "empty_memory_with script = \<lparr>blocks = [], alloc_ok = script, alloc_log = []\<rparr>"

section \<open>Properties of the model\<close>

subsection \<open>Conversions and failure codes\<close>

lemma uint_scast_nonneg:
  fixes r :: c_int
  assumes "0 \<le> sint r"
  shows "uint (scast r :: size_t) = sint r"
proof -
  have "sint r < 2 ^ 31" using sint_lt[of r] by simp
  moreover have "(2::int) ^ 31 < 2 ^ 64" by simp
  ultimately have lt: "sint r < 2 ^ 64" by linarith
  have "uint (scast r :: size_t) = uint (word_of_int (sint r) :: size_t)"
    by (simp only: scast_eq)
  also have "\<dots> = sint r mod 2 ^ LENGTH(64)"
    by (rule uint_word_of_int)
  also have "\<dots> = sint r"
    using assms lt
    by (simp only: mod_pos_pos_trivial len_num1 len_bit0 mult_numeral_1_right
        numeral_times_numeral semiring_norm)
  finally show ?thesis .
qed

lemma post_check_bound:
  fixes r :: c_int and mx :: size_t
  assumes "\<not> (scast r :: size_t) > mx" and "0 \<le> sint r"
  shows "sint r \<le> uint mx"
proof -
  from assms(1) have "uint (scast r :: size_t) \<le> uint mx"
    by (simp add: word_less_def not_less)
  with assms(2) show ?thesis by (simp add: uint_scast_nonneg)
qed

lemma scast_negative_large:
  fixes r :: c_int
  assumes "sint r < 0"
  shows "2 ^ 64 - 2 ^ 31 \<le> uint (scast r :: size_t)"
proof -
  have ge: "- (2 ^ 31) \<le> sint r" using sint_ge [of r] by simp
  have "uint (scast r :: size_t) = uint (word_of_int (sint r) :: size_t)"
    by (simp only: scast_eq)
  also have "\<dots> = sint r mod 2 ^ LENGTH(64)"
    by (rule uint_word_of_int)
  also have "\<dots> = sint r mod 2 ^ 64" by simp
  also have "\<dots> = sint r + 2 ^ 64"
  proof -
    have "(sint r + 2 ^ 64) mod 2 ^ 64 = sint r + 2 ^ 64"
    proof (rule mod_pos_pos_trivial)
      have "(2::int) ^ 31 \<le> 2 ^ 64" by simp
      with ge show "0 \<le> sint r + 2 ^ 64" by linarith
      from assms show "sint r + 2 ^ 64 < 2 ^ 64" by linarith
    qed
    then show ?thesis by (simp only: mod_add_self2)
  qed
  finally show ?thesis using ge by linarith
qed

lemma codes_negative:
  "sint GNUTLS_E_COMPRESSION_FAILED < 0" "sint GNUTLS_E_DECOMPRESSION_FAILED < 0"
  "sint GNUTLS_E_MEMORY_ERROR < 0" "sint GNUTLS_E_INTERNAL_ERROR < 0"
  by (simp_all add: GNUTLS_E_COMPRESSION_FAILED_def GNUTLS_E_DECOMPRESSION_FAILED_def
      GNUTLS_E_MEMORY_ERROR_def GNUTLS_E_INTERNAL_ERROR_def)

lemma buf_not_ok: "Z_BUF_ERROR \<noteq> Z_OK"
  by (simp add: Z_BUF_ERROR_def Z_OK_def)

lemma sint_nonneg_uint:
  fixes r :: c_int
  assumes "0 \<le> sint r"
  shows "sint r = uint r"
proof -
  have "sint r = take_bit 32 (uint r) - 2 ^ 32 * of_bool (bit (uint r) 31)"
    by (simp add: sint_uint signed_take_bit_eq_take_bit_minus)
  moreover have "take_bit 32 (uint r) = uint r"
    by (simp add: take_bit_int_eq_self_iff) (use uint_lt2p[of r] in simp)
  moreover have "uint r < 2 ^ 32" using uint_lt2p[of r] by simp
  ultimately show ?thesis using assms by (cases "bit (uint r) 31") simp_all
qed

lemma uint_ucast_up:
  fixes a :: uInt
  shows "uint (ucast a :: uLongf) = uint a"
  by (simp add: uint_up_ucast is_up)

lemma uint_ucast_down:
  fixes w :: uLongf
  shows "uint (ucast w :: uInt) \<le> uint w"
  by (metis (mono_tags, lifting) le_unat_uoi nle_le of_nat_unat un_ui_le)

lemma trunc_len_le:
  fixes sz :: uLongf and ao :: uInt
  assumes le: "ao \<le> ucast sz" and nn: "0 \<le> sint (ucast (sz - ucast ao) :: c_int)"
  shows "sint (ucast (sz - ucast ao) :: c_int) \<le> uint sz"
proof -
  have "uint ao \<le> uint (ucast sz :: uInt)" using le by (simp add: word_le_def)
  also have "\<dots> \<le> uint sz" by (rule uint_ucast_down)
  finally have a: "uint (ucast ao :: uLongf) \<le> uint sz" by (simp add: uint_ucast_up)
  then have "uint (sz - ucast ao) = uint sz - uint (ucast ao :: uLongf)"
    by (simp add: uint_sub_lem)
  then have "uint (sz - ucast ao) \<le> uint sz" by simp
  moreover have "uint (ucast (sz - ucast ao) :: c_int) \<le> uint (sz - ucast ao)"
    by (rule uint_ucast_down)
  ultimately show ?thesis using sint_nonneg_uint[OF nn] by linarith
qed

lemma size_le:
  fixes ps :: size_t
  shows "uint ((ps + ps) + 10) \<le> 2 * uint ps + 10"
proof -
  have "uint ((ps + ps) + 10) \<le> uint (ps + ps) + uint (10 :: size_t)" by (rule uint_add_le)
  moreover have "uint (ps + ps) \<le> uint ps + uint ps" by (rule uint_add_le)
  ultimately show ?thesis by simp
qed

lemma size_exact:
  fixes ps :: size_t
  assumes "2 * unat ps + 10 < 2 ^ 64"
  shows "unat ((ps + ps) + 10) = 2 * unat ps + 10"
  using assms by (simp add: unat_word_ariths)

lemma upfront_word:
  fixes cs mx extra :: size_t
  assumes "unat mx + unat extra < unat cs"
  shows "cs > mx + extra"
proof -
  have "unat (mx + extra) \<le> unat mx + unat extra"
    by (simp add: unat_word_ariths)
  with assms show ?thesis by (simp add: word_less_nat_alt)
qed

subsection \<open>The store\<close>

lemma get_zs_Some:
  assumes "get_zs m q = Some z"
  obtains b where "q = Ptr b 0" "b < length (blocks m)" "blocks m ! b = Some (Zs z)"
  using assms
  by (cases q) (auto simp: lookup_def split: if_splits option.splits obj.splits)

lemma get_hd_Some:
  assumes "get_hd m q = Some h"
  obtains b where "q = Ptr b 0" "b < length (blocks m)" "blocks m ! b = Some (Hd h)"
  using assms
  by (cases q) (auto simp: lookup_def split: if_splits option.splits obj.splits)

lemma log_free [simp]: "alloc_log (gnutls_free m p) = alloc_log m"
  by (cases p) simp_all

lemma log_put [simp]: "alloc_log (put_obj m p x) = alloc_log m"
  by (cases p) simp_all

lemma script_free [simp]: "alloc_ok (gnutls_free m p) = alloc_ok m"
  by (cases p) simp_all

lemma script_put [simp]: "alloc_ok (put_obj m p x) = alloc_ok m"
  by (cases p) simp_all

lemma next_ok_free [simp]: "next_ok (gnutls_free m p) = next_ok m"
  by (simp add: next_ok_def)

lemma next_ok_put [simp]: "next_ok (put_obj m p x) = next_ok m"
  by (simp add: next_ok_def)

lemma length_free [simp]: "length (blocks (gnutls_free m p)) = length (blocks m)"
  by (cases p) simp_all

lemma length_put [simp]: "length (blocks (put_obj m p x)) = length (blocks m)"
  by (cases p) simp_all

lemma malloc_log:
  "alloc_log (snd (gnutls_malloc m n)) = alloc_log m @ [(n, next_ok m)]"
  by (simp add: gnutls_malloc_def)

lemma malloc_cases:
  assumes "gnutls_malloc m n = (p, m1)"
  obtains (fail) "\<not> next_ok m" "p = NULL" "blocks m1 = blocks m"
      "alloc_log m1 = alloc_log m @ [(n, False)]"
    | (ok) "next_ok m" "p = Ptr (length (blocks m)) 0" "blocks m1 = blocks m @ [Some (Raw n)]"
      "alloc_log m1 = alloc_log m @ [(n, True)]"
  using assms by (auto simp: gnutls_malloc_def split: if_splits)

lemma lookup_free:
  "lookup (gnutls_free m (Ptr b' off)) b = (if b = b' then None else lookup m b)"
  by (simp add: lookup_def)

lemma lookup_put:
  "lookup (put_obj m (Ptr b' off) x) b =
     (if b = b' \<and> b' < length (blocks m) then Some x else lookup m b)"
  by (simp add: lookup_def)

lemma lookup_malloc:
  "lookup (snd (gnutls_malloc m n)) b =
     (if next_ok m \<and> b = length (blocks m) then Some (Raw n) else lookup m b)"
  by (simp add: lookup_def gnutls_malloc_def nth_append)

lemma get_zs_malloc: "get_zs (snd (gnutls_malloc m k)) q = get_zs m q"
proof (cases q)
  case NULL
  then show ?thesis by simp
next
  case (Ptr b off)
  have "lookup m (length (blocks m)) = None" by (simp add: lookup_def)
  then show ?thesis using Ptr by (simp add: lookup_malloc)
qed

lemma realloc_fail:
  assumes "\<not> next_ok m"
  shows "mhd_gtls_realloc_fast m p n =
           (NULL, (gnutls_free m p)\<lparr>alloc_ok := tl (alloc_ok m),
                                      alloc_log := alloc_log m @ [(n, False)]\<rparr>)"
  using assms by (simp add: mhd_gtls_realloc_fast_def gnutls_malloc_def)

lemma realloc_ok:
  assumes "next_ok m"
  shows "mhd_gtls_realloc_fast m p n =
           (Ptr (length (blocks m)) 0,
            (gnutls_free m p)\<lparr>blocks := blocks (gnutls_free m p) @ [Some (Raw n)],
                               alloc_ok := tl (alloc_ok m),
                               alloc_log := alloc_log m @ [(n, True)]\<rparr>)"
  using assms by (simp add: mhd_gtls_realloc_fast_def gnutls_malloc_def)

lemma realloc_log:
  assumes "mhd_gtls_realloc_fast m plain n = (plain1, m1)"
  shows "alloc_log m1 = alloc_log m @ [(n, plain1 \<noteq> NULL)]"
  using assms
  by (auto simp: mhd_gtls_realloc_fast_def gnutls_malloc_def split: if_splits
      simp del: gnutls_free.simps)

lemma free_fresh:
  "blocks (gnutls_free (m\<lparr>blocks := blocks m @ [x], alloc_ok := a, alloc_log := l\<rparr>)
             (Ptr (length (blocks m)) 0)) = blocks m @ [None]"
  using list_update_length [of "blocks m" x "[]" None] by simp

lemma lookup_grown:
  assumes "blocks m1 = blocks m @ replicate k None @ [x]"
  shows "lookup m1 b = (if b = length (blocks m) + k then x else lookup m b)"
  using assms by (auto simp: lookup_def nth_append)

lemma lookup_padded:
  assumes "blocks m1 = blocks m @ replicate k None"
  shows "lookup m1 b = lookup m b"
  using assms by (auto simp: lookup_def nth_append)

lemma dom_lookup_cong:
  assumes "\<And>b. lookup m' b = None \<longleftrightarrow> lookup m b = None"
  shows "dom (lookup m') = dom (lookup m)"
  using assms by (auto simp: dom_def)

lemma live_after_nomem:
  assumes bl: "blocks m1 = blocks m @ replicate k None"
    and zs: "get_zs m zp = Some z"
  shows "dom (lookup (put_obj m1 zp (Zs z'))) = dom (lookup m)"
proof -
  from zs obtain zb where zb: "zp = Ptr zb 0" "zb < length (blocks m)"
    "blocks m ! zb = Some (Zs z)" by (rule get_zs_Some)
  from zb have live: "lookup m zb = Some (Zs z)" by (simp add: lookup_def)
  have "lookup (put_obj m1 zp (Zs z')) b = None \<longleftrightarrow> lookup m b = None" for b
    using zb live bl by (simp add: lookup_put lookup_padded [OF bl] del: put_obj.simps)
  then show ?thesis by (auto simp: dom_def)
qed

lemma live_after_release:
  assumes bl: "blocks m1 = blocks m @ replicate k None @ [x]"
    and zs: "get_zs m zp = Some z"
  shows "dom (lookup (gnutls_free (put_obj m1 zp (Zs z')) (Ptr (length (blocks m) + k) 0)))
           = dom (lookup m)"
proof -
  from zs obtain zb where zb: "zp = Ptr zb 0" "zb < length (blocks m)"
    "blocks m ! zb = Some (Zs z)" by (rule get_zs_Some)
  from zb have live: "lookup m zb = Some (Zs z)" by (simp add: lookup_def)
  have beyond: "lookup m (length (blocks m) + k) = None" by (simp add: lookup_def)
  have "lookup (gnutls_free (put_obj m1 zp (Zs z')) (Ptr (length (blocks m) + k) 0)) b = None
          \<longleftrightarrow> lookup m b = None" for b
    using zb live bl beyond
    by (simp add: lookup_free lookup_put lookup_grown [OF bl]
        del: put_obj.simps gnutls_free.simps)
  then show ?thesis by (auto simp: dom_def)
qed

subsection \<open>Initialisation\<close>

lemma init_eq:
  assumes a1: "gnutls_malloc m sizeof_comp_hd_t_STRUCT = (p1, m1)"
    and a2: "gnutls_malloc (put_obj m1 p1 (Hd \<lparr>handle = NULL, algo = method\<rparr>))
               sizeof_z_stream = (zp, m3)"
    and a3: "(if d then inflateInit2 E (get_wbits E method)
              else deflateInit2 E (get_comp_level E method) (get_wbits E method)
                     (get_mem_level E method)) = (err, z)"
  shows "mhd_gtls_comp_init E method d m =
    (if p1 = NULL then (NULL, m1)
     else case method of
       MHD_GNUTLS_COMP_NULL \<Rightarrow> (p1, put_obj m1 p1 (Hd \<lparr>handle = NULL, algo = method\<rparr>))
     | MHD_GNUTLS_COMP_DEFLATE \<Rightarrow>
         if zp = NULL
         then (NULL, gnutls_free (put_obj m3 p1 (Hd \<lparr>handle = zp, algo = method\<rparr>)) p1)
         else if err \<noteq> Z_OK
         then (NULL, gnutls_free (gnutls_free
                 (put_obj (put_obj m3 p1 (Hd \<lparr>handle = zp, algo = method\<rparr>)) zp (Zs z)) zp) p1)
         else (p1, put_obj (put_obj m3 p1 (Hd \<lparr>handle = zp, algo = method\<rparr>)) zp (Zs z)))"
proof (cases "method")
  case MHD_GNUTLS_COMP_NULL
  then show ?thesis
    by (simp add: mhd_gtls_comp_init_def a1 Let_def del: put_obj.simps gnutls_free.simps)
next
  case MHD_GNUTLS_COMP_DEFLATE
  show ?thesis
  proof (cases d)
    case True
    with a2 a3 show ?thesis unfolding MHD_GNUTLS_COMP_DEFLATE
      by (simp add: mhd_gtls_comp_init_def a1 Let_def del: put_obj.simps gnutls_free.simps)
  next
    case False
    with a2 a3 show ?thesis unfolding MHD_GNUTLS_COMP_DEFLATE
      by (simp add: mhd_gtls_comp_init_def a1 Let_def del: put_obj.simps gnutls_free.simps)
  qed
qed

lemma init_failure_clean:
  assumes ret: "mhd_gtls_comp_init E method d m = (ret, m')"
    and fail: "(n, False) \<in> set (drop (length (alloc_log m)) (alloc_log m'))"
  shows "ret = NULL \<and> dom (lookup m') = dom (lookup m)"
proof -
  let ?hd = "Hd \<lparr>handle = NULL, algo = method\<rparr>"
  obtain p1 m1 where a1: "gnutls_malloc m sizeof_comp_hd_t_STRUCT = (p1, m1)"
    by (cases "gnutls_malloc m sizeof_comp_hd_t_STRUCT")
  obtain zp m3 where a2: "gnutls_malloc (put_obj m1 p1 ?hd) sizeof_z_stream = (zp, m3)"
    by (cases "gnutls_malloc (put_obj m1 p1 ?hd) sizeof_z_stream")
  obtain err z where a3: "(if d then inflateInit2 E (get_wbits E method)
            else deflateInit2 E (get_comp_level E method) (get_wbits E method)
                   (get_mem_level E method)) = (err, z)"
    by (cases "if d then inflateInit2 E (get_wbits E method)
            else deflateInit2 E (get_comp_level E method) (get_wbits E method)
                   (get_mem_level E method)")
  note eq = init_eq [OF a1 a2 a3]
  from a1 show ?thesis
  proof (cases rule: malloc_cases)
    case fail
    with ret eq have "ret = NULL" "m' = m1" by simp_all
    with fail(3) show ?thesis by (simp add: lookup_def dom_def)
  next
    case ok
    from ok(2) have nn: "p1 \<noteq> NULL" by simp
    have b2: "blocks (put_obj m1 p1 ?hd) = blocks m @ [Some ?hd]"
      using ok(2,3) list_update_length [of "blocks m" _ "[]"] by simp
    have l2: "alloc_log (put_obj m1 p1 ?hd) = alloc_log m @ [(sizeof_comp_hd_t_STRUCT, True)]"
      using ok(4) by simp
    show ?thesis
    proof (cases "method")
      case MHD_GNUTLS_COMP_NULL
      with ret eq nn have "m' = put_obj m1 p1 ?hd" by (simp del: put_obj.simps)
      with fail l2 show ?thesis by simp
    next
      case MHD_GNUTLS_COMP_DEFLATE
      from a2 show ?thesis
      proof (cases rule: malloc_cases)
        case fail
        let ?hd' = "Hd \<lparr>handle = zp, algo = method\<rparr>"
        from ret eq nn fail(2) MHD_GNUTLS_COMP_DEFLATE
        have r: "ret = NULL" and m': "m' = gnutls_free (put_obj m3 p1 ?hd') p1"
          by (simp_all del: put_obj.simps gnutls_free.simps)
        have "blocks m' = blocks m @ [None]"
          unfolding m' using ok(2) fail(3) b2 list_update_length [of "blocks m" _ "[]"]
          by simp
        then have "lookup m' b = None \<longleftrightarrow> lookup m b = None" for b
          by (auto simp: lookup_def nth_append)
        then have "dom (lookup m') = dom (lookup m)" by (rule dom_lookup_cong)
        with r show ?thesis by simp
      next
        case ok2: ok
        from ok2(2) have zn: "zp \<noteq> NULL" by simp
        from ret eq nn zn MHD_GNUTLS_COMP_DEFLATE have "alloc_log m' = alloc_log m3"
          by (cases "err = Z_OK") (auto simp del: put_obj.simps gnutls_free.simps)
        with fail ok2(4) l2 show ?thesis by simp
      qed
    qed
  qed
qed

subsection \<open>Compress\<close>

lemma compress_switch_Return:
  assumes "compress_switch deflate hdl plain plain_size compressed m =
             Returns (Return (r, p, m'))"
  shows "r = GNUTLS_E_MEMORY_ERROR \<or> r = GNUTLS_E_COMPRESSION_FAILED
           \<or> r = GNUTLS_E_INTERNAL_ERROR"
  using assms
  by (auto simp: compress_switch_def Let_def
      split: option.splits CompressionMethod.splits prod.splits if_splits)

lemma compress_bound:
  assumes "mhd_gtls_compress deflate hdl plain plain_size compressed max_comp_size m =
             Returns (r, p, m')"
    and "0 \<le> sint r"
  shows "sint r \<le> uint max_comp_size"
  using assms codes_negative
  by (auto simp: mhd_gtls_compress_def post_check_bound
      dest!: compress_switch_Return
      split: if_splits run.splits switch.splits prod.splits)

lemma compress_switch_deflate:
  assumes hd: "get_hd m hdl = Some h" and al: "algo h = MHD_GNUTLS_COMP_DEFLATE"
    and zs: "get_zs m (handle h) = Some z"
    and call: "deflate (z\<lparr>next_in := plain, avail_in := ucast plain_size,
                  next_out := Ptr (length (blocks m)) 0,
                  avail_out := ucast ((plain_size + plain_size) + 10)\<rparr>) Z_SYNC_FLUSH = (err, z')"
  shows "compress_switch deflate hdl plain plain_size compressed m =
    (if \<not> next_ok m
     then Returns (Return (GNUTLS_E_MEMORY_ERROR, NULL,
            snd (gnutls_malloc m ((plain_size + plain_size) + 10))))
     else if err \<noteq> Z_OK \<or> avail_in z' \<noteq> 0
     then Returns (Return (GNUTLS_E_COMPRESSION_FAILED, NULL,
            gnutls_free (put_obj (snd (gnutls_malloc m ((plain_size + plain_size) + 10)))
                           (handle h) (Zs z'))
              (Ptr (length (blocks m)) 0)))
     else Returns (Break (ucast (((plain_size + plain_size) + 10) - ucast (avail_out z')),
            Ptr (length (blocks m)) 0,
            put_obj (snd (gnutls_malloc m ((plain_size + plain_size) + 10)))
              (handle h) (Zs z'))))"
proof -
  from zs obtain b where b: "handle h = Ptr b 0" "b < length (blocks m)"
    "blocks m ! b = Some (Zs z)" by (rule get_zs_Some)
  show ?thesis
    using hd al call b
    by (simp add: compress_switch_def gnutls_malloc_def lookup_def nth_append Let_def)
qed

lemma compress_paths:
  assumes ret: "mhd_gtls_compress deflate hdl plain plain_size compressed max_comp_size m =
                  Returns (r, p, m')"
    and a1: "gnutls_malloc m ((plain_size + plain_size) + 10) = (c1, m1)"
  shows "m' = m \<or> (c1 = NULL \<and> r = GNUTLS_E_MEMORY_ERROR \<and> p = NULL \<and> m' = m1)
           \<or> (c1 \<noteq> NULL \<and> alloc_log m' = alloc_log m1)"
  using ret a1
  by (auto simp: mhd_gtls_compress_def compress_switch_def Let_def
      simp del: put_obj.simps gnutls_free.simps
      split: if_splits option.splits CompressionMethod.splits prod.splits
        run.splits switch.splits)

lemma compress_failure_clean:
  assumes ret: "mhd_gtls_compress deflate hdl plain plain_size compressed max_comp_size m =
                  Returns (r, p, m')"
    and fail: "(n, False) \<in> set (drop (length (alloc_log m)) (alloc_log m'))"
  shows "r = GNUTLS_E_MEMORY_ERROR \<and> p = NULL \<and> dom (lookup m') = dom (lookup m)"
proof -
  obtain c1 m1 where a1: "gnutls_malloc m ((plain_size + plain_size) + 10) = (c1, m1)"
    by (cases "gnutls_malloc m ((plain_size + plain_size) + 10)")
  from a1 show ?thesis
  proof (cases rule: malloc_cases)
    case fail': fail
    from compress_paths [OF ret a1] fail fail'(2)
    have "r = GNUTLS_E_MEMORY_ERROR \<and> p = NULL \<and> m' = m1" by auto
    with fail'(3) show ?thesis by (simp add: lookup_def dom_def)
  next
    case ok
    from compress_paths [OF ret a1] fail ok(2,4) show ?thesis by auto
  qed
qed

subsection \<open>The growth loop\<close>

text \<open>
  The induction rule of the loop: a property of the results holds if every pass of the
  body preserves it.
\<close>

lemmas inflate_loop_induct = inflate_loop.raw_induct [rotated 1, consumes 1, case_names step]

lemma loop_body_ok:
  assumes ok: "next_ok m"
    and call: "inflate (z\<lparr>next_out := ptr_add (Ptr (length (blocks m)) 0) (sint cp),
            avail_out := ucast ((os + 512) - scast cp)\<rparr>) Z_SYNC_FLUSH = (err, z')"
    and body: "(case mhd_gtls_realloc_fast m plain (os + 512) of (plain1, m1) \<Rightarrow>
        if plain1 = NULL then Some (NoMemory z m1)
        else
          (case inflate (z\<lparr>next_out := ptr_add plain1 (sint cp),
                           avail_out := ucast ((os + 512) - scast cp)\<rparr>)
                  Z_SYNC_FLUSH of
             (err, z') \<Rightarrow>
               if (err = Z_BUF_ERROR \<and> avail_out z' = 0 \<and> os + 512 < mx)
                  \<or> (err = Z_OK \<and> avail_in z' \<noteq> 0)
               then loop inflate mx z' plain1 (os + 512)
                      (ucast ((os + 512) - ucast (avail_out z'))) m1
               else Some (Left err z' plain1 (os + 512) m1))) = Some y"
  shows "(if (err = Z_BUF_ERROR \<and> avail_out z' = 0 \<and> os + 512 < mx)
                  \<or> (err = Z_OK \<and> avail_in z' \<noteq> 0)
          then loop inflate mx z' (Ptr (length (blocks m)) 0) (os + 512)
                      (ucast ((os + 512) - ucast (avail_out z')))
                      ((gnutls_free m plain)\<lparr>blocks := blocks (gnutls_free m plain) @ [Some (Raw (os + 512))],
                               alloc_ok := tl (alloc_ok m),
                               alloc_log := alloc_log m @ [(os + 512, True)]\<rparr>)
          else Some (Left err z' (Ptr (length (blocks m)) 0) (os + 512)
                      ((gnutls_free m plain)\<lparr>blocks := blocks (gnutls_free m plain) @ [Some (Raw (os + 512))],
                               alloc_ok := tl (alloc_ok m),
                               alloc_log := alloc_log m @ [(os + 512, True)]\<rparr>))) = Some y"
  using body unfolding realloc_ok [OF ok] prod.case call
  by (simp only: ptr.distinct if_False)

lemma loop_body_fail:
  assumes ok: "\<not> next_ok m"
    and body: "(case mhd_gtls_realloc_fast m plain (os + 512) of (plain1, m1) \<Rightarrow>
        if plain1 = NULL then Some (NoMemory z m1) else rest plain1 m1) = Some y"
  shows "y = NoMemory z ((gnutls_free m plain)\<lparr>alloc_ok := tl (alloc_ok m),
                                      alloc_log := alloc_log m @ [(os + 512, False)]\<rparr>)"
  using body unfolding realloc_fail [OF ok] prod.case
  by (simp del: gnutls_free.simps)

lemma inflate_loop_fail:
  assumes ok: "\<not> next_ok m"
  shows "inflate_loop inflate mx z plain os cp m =
           Some (NoMemory z ((gnutls_free m plain)\<lparr>alloc_ok := tl (alloc_ok m),
                                      alloc_log := alloc_log m @ [(os + 512, False)]\<rparr>))"
  by (subst inflate_loop.simps) (simp add: realloc_fail [OF ok] del: gnutls_free.simps)

lemma inflate_loop_ok:
  assumes ok: "next_ok m"
    and call: "inflate (z\<lparr>next_out := ptr_add (Ptr (length (blocks m)) 0) (sint cp),
            avail_out := ucast ((os + 512) - scast cp)\<rparr>) Z_SYNC_FLUSH = (err, z')"
  shows "inflate_loop inflate mx z plain os cp m =
         (if (err = Z_BUF_ERROR \<and> avail_out z' = 0 \<and> os + 512 < mx)
                  \<or> (err = Z_OK \<and> avail_in z' \<noteq> 0)
          then inflate_loop inflate mx z' (Ptr (length (blocks m)) 0) (os + 512)
                      (ucast ((os + 512) - ucast (avail_out z')))
                      ((gnutls_free m plain)\<lparr>blocks := blocks (gnutls_free m plain) @ [Some (Raw (os + 512))],
                               alloc_ok := tl (alloc_ok m),
                               alloc_log := alloc_log m @ [(os + 512, True)]\<rparr>)
          else Some (Left err z' (Ptr (length (blocks m)) 0) (os + 512)
                      ((gnutls_free m plain)\<lparr>blocks := blocks (gnutls_free m plain) @ [Some (Raw (os + 512))],
                               alloc_ok := tl (alloc_ok m),
                               alloc_log := alloc_log m @ [(os + 512, True)]\<rparr>)))"
  apply (subst inflate_loop.simps)
  unfolding realloc_ok [OF ok] prod.case call
  apply (simp only: ptr.distinct if_False)
  done

lemma loop_exit_condition:
  assumes "inflate_loop inflate mx z plain os cp m = Some (Left err z' p' os' m')"
  shows "\<not> ((err = Z_BUF_ERROR \<and> avail_out z' = 0 \<and> os' < mx)
            \<or> (err = Z_OK \<and> avail_in z' \<noteq> 0))"
  using assms
proof (induction inflate mx z plain os cp m y \<equiv> "Left err z' p' os' m'"
    rule: inflate_loop_induct)
  case (step loop inflate mx z plain os cp m)
  then show ?case
    by (auto split: prod.splits if_splits)
qed

text \<open>
  What a finished loop leaves in the store: the block it was given is released, every
  intermediate block is released, and when it leaves by its condition the last block has
  the final capacity.
\<close>

lemma loop_blocks:
  assumes "inflate_loop inflate mx z plain os cp m = Some y"
  shows "case y of
           NoMemory z' m' \<Rightarrow> \<exists>k. blocks m' = blocks (gnutls_free m plain) @ replicate k None
         | Left err z' p' os' m' \<Rightarrow>
             \<exists>k. blocks m' = blocks (gnutls_free m plain) @ replicate k None @ [Some (Raw os')]
                \<and> p' = Ptr (length (blocks m) + k) 0"
  using assms
proof (induction rule: inflate_loop_induct)
  case (step loop inflate mx z plain os cp m y)
  show ?case
  proof (cases "next_ok m")
    case False
    from loop_body_fail [OF False step(2)] show ?thesis
      by (simp del: gnutls_free.simps)
  next
    case True
    let ?m1 = "(gnutls_free m plain)\<lparr>blocks := blocks (gnutls_free m plain) @ [Some (Raw (os + 512))],
                               alloc_ok := tl (alloc_ok m),
                               alloc_log := alloc_log m @ [(os + 512, True)]\<rparr>"
    let ?p1 = "Ptr (length (blocks m)) 0"
    obtain err z' where call: "inflate (z\<lparr>next_out := ptr_add ?p1 (sint cp),
            avail_out := ucast ((os + 512) - scast cp)\<rparr>) Z_SYNC_FLUSH = (err, z')"
      by (cases "inflate (z\<lparr>next_out := ptr_add ?p1 (sint cp),
            avail_out := ucast ((os + 512) - scast cp)\<rparr>) Z_SYNC_FLUSH")
    have fr: "blocks (gnutls_free ?m1 ?p1) = blocks (gnutls_free m plain) @ [None]"
      using free_fresh [where m = "gnutls_free m plain"] by (simp del: gnutls_free.simps)
    note body = loop_body_ok [where inflate = inflate and loop = loop, OF True call step(2)]
    show ?thesis
    proof (cases "(err = Z_BUF_ERROR \<and> avail_out z' = 0 \<and> os + 512 < mx)
                  \<or> (err = Z_OK \<and> avail_in z' \<noteq> 0)")
      case c: True
      from body have cont: "loop inflate mx z' ?p1 (os + 512)
          (ucast ((os + 512) - ucast (avail_out z'))) ?m1 = Some y"
        by (simp only: if_P [OF c])
      note ih = step(1) [OF cont, unfolded fr]
      show ?thesis
      proof (cases y)
        case (NoMemory z'' m'')
        with ih obtain k where
          "blocks m'' = (blocks (gnutls_free m plain) @ [None]) @ replicate k None"
          by auto
        then have "blocks m'' = blocks (gnutls_free m plain) @ replicate (Suc k) None"
          by simp
        then have "\<exists>k. blocks m'' = blocks (gnutls_free m plain) @ replicate k None"
          by (rule exI)
        with NoMemory show ?thesis by (simp only: loop_exit.case)
      next
        case (Left e z'' p'' os'' m'')
        with ih obtain k where
          "blocks m'' = (blocks (gnutls_free m plain) @ [None]) @ replicate k None
                          @ [Some (Raw os'')]"
          and "p'' = Ptr (length (blocks ?m1) + k) 0"
          by auto
        then have "blocks m'' = blocks (gnutls_free m plain) @ replicate (Suc k) None
                          @ [Some (Raw os'')] \<and> p'' = Ptr (length (blocks m) + Suc k) 0"
          by (simp del: gnutls_free.simps)
        then have "\<exists>k. blocks m'' = blocks (gnutls_free m plain) @ replicate k None
                          @ [Some (Raw os'')] \<and> p'' = Ptr (length (blocks m) + k) 0"
          by (rule exI)
        with Left show ?thesis by (simp only: loop_exit.case)
      qed
    next
      case c: False
      from body have "y = Left err z' ?p1 (os + 512) ?m1"
        by (simp only: if_not_P [OF c] option.inject)
      then show ?thesis by (simp del: gnutls_free.simps)
    qed
  qed
qed

text \<open>
  Every pass makes one request to the allocator; the loop goes on only after a request
  that succeeded.
\<close>

lemma loop_log:
  assumes "inflate_loop inflate mx z plain os cp m = Some y"
  shows "case y of
           NoMemory z' m' \<Rightarrow>
             \<exists>ns n. alloc_log m' = alloc_log m @ map (\<lambda>n. (n, True)) ns @ [(n, False)]
         | Left err z' p' os' m' \<Rightarrow>
             \<exists>ns. alloc_log m' = alloc_log m @ map (\<lambda>n. (n, True)) ns"
  using assms
proof (induction rule: inflate_loop_induct)
  case (step loop inflate mx z plain os cp m y)
  show ?case
  proof (cases "next_ok m")
    case False
    have "\<exists>ns n. alloc_log m @ [(os + 512, False)] =
        alloc_log m @ map (\<lambda>n. (n, True)) ns @ [(n, False)]"
      by (rule exI [where x = "[]"]) simp
    with loop_body_fail [OF False step(2)] show ?thesis
      by (simp del: gnutls_free.simps)
  next
    case True
    let ?m1 = "(gnutls_free m plain)\<lparr>blocks := blocks (gnutls_free m plain) @ [Some (Raw (os + 512))],
                               alloc_ok := tl (alloc_ok m),
                               alloc_log := alloc_log m @ [(os + 512, True)]\<rparr>"
    let ?p1 = "Ptr (length (blocks m)) 0"
    obtain err z' where call: "inflate (z\<lparr>next_out := ptr_add ?p1 (sint cp),
            avail_out := ucast ((os + 512) - scast cp)\<rparr>) Z_SYNC_FLUSH = (err, z')"
      by (cases "inflate (z\<lparr>next_out := ptr_add ?p1 (sint cp),
            avail_out := ucast ((os + 512) - scast cp)\<rparr>) Z_SYNC_FLUSH")
    note body = loop_body_ok [where inflate = inflate and loop = loop, OF True call step(2)]
    show ?thesis
    proof (cases "(err = Z_BUF_ERROR \<and> avail_out z' = 0 \<and> os + 512 < mx)
                  \<or> (err = Z_OK \<and> avail_in z' \<noteq> 0)")
      case c: True
      from body have cont: "loop inflate mx z' ?p1 (os + 512)
          (ucast ((os + 512) - ucast (avail_out z'))) ?m1 = Some y"
        by (simp only: if_P [OF c])
      note ih = step(1) [OF cont]
      show ?thesis
      proof (cases y)
        case (NoMemory z'' m'')
        with ih obtain ns n where
          "alloc_log m'' = alloc_log ?m1 @ map (\<lambda>n. (n, True)) ns @ [(n, False)]"
          by auto
        then have "alloc_log m'' = alloc_log m @ map (\<lambda>n. (n, True)) ((os + 512) # ns)
                     @ [(n, False)]"
          by simp
        then have "\<exists>ns n. alloc_log m'' = alloc_log m @ map (\<lambda>n. (n, True)) ns @ [(n, False)]"
          by blast
        with NoMemory show ?thesis by (simp only: loop_exit.case)
      next
        case (Left e z'' p'' os'' m'')
        with ih obtain ns where
          "alloc_log m'' = alloc_log ?m1 @ map (\<lambda>n. (n, True)) ns"
          by auto
        then have "alloc_log m'' = alloc_log m @ map (\<lambda>n. (n, True)) ((os + 512) # ns)"
          by simp
        then have "\<exists>ns. alloc_log m'' = alloc_log m @ map (\<lambda>n. (n, True)) ns"
          by blast
        with Left show ?thesis by (simp only: loop_exit.case)
      qed
    next
      case c: False
      from body have y: "y = Left err z' ?p1 (os + 512) ?m1"
        by (simp only: if_not_P [OF c] option.inject)
      have "\<exists>ns. alloc_log m @ [(os + 512, True)] = alloc_log m @ map (\<lambda>n. (n, True)) ns"
        by (rule exI [where x = "[os + 512]"]) simp
      with y show ?thesis by (simp del: gnutls_free.simps)
    qed
  qed
qed

text \<open>
  A pass that ends with the buffer-exhausted status: the loop goes on only if the output
  space is used up and the capacity is below the maximum.
\<close>

lemma buffer_exhausted_pass:
  assumes re: "mhd_gtls_realloc_fast m plain (out_size + 512) = (plain1, m1)"
    and nn: "plain1 \<noteq> NULL"
    and call: "inflate (z\<lparr>next_out := ptr_add plain1 (sint cur_pos),
                 avail_out := ucast ((out_size + 512) - scast cur_pos)\<rparr>) Z_SYNC_FLUSH =
               (Z_BUF_ERROR, z')"
  shows "alloc_log m1 = alloc_log m @ [(out_size + 512, True)]"
    and "\<not> out_size + 512 < max_record_size \<or> avail_out z' \<noteq> 0 \<Longrightarrow>
            inflate_loop inflate max_record_size z plain out_size cur_pos m =
              Some (Left Z_BUF_ERROR z' plain1 (out_size + 512) m1)"
    and "out_size + 512 < max_record_size \<and> avail_out z' = 0 \<Longrightarrow>
            inflate_loop inflate max_record_size z plain out_size cur_pos m =
              inflate_loop inflate max_record_size z' plain1 (out_size + 512)
                (ucast ((out_size + 512) - ucast (avail_out z'))) m1"
proof -
  from realloc_log [OF re] nn
  show "alloc_log m1 = alloc_log m @ [(out_size + 512, True)]" by simp
next
  assume "\<not> out_size + 512 < max_record_size \<or> avail_out z' \<noteq> 0"
  then show "inflate_loop inflate max_record_size z plain out_size cur_pos m =
              Some (Left Z_BUF_ERROR z' plain1 (out_size + 512) m1)"
    by (subst inflate_loop.simps) (auto simp: re nn call buf_not_ok)
next
  assume "out_size + 512 < max_record_size \<and> avail_out z' = 0"
  then show "inflate_loop inflate max_record_size z plain out_size cur_pos m =
              inflate_loop inflate max_record_size z' plain1 (out_size + 512)
                (ucast ((out_size + 512) - ucast (avail_out z'))) m1"
    by (subst inflate_loop.simps) (simp add: re nn call)
qed

text \<open>
  A pass that ends with OK and input left: the loop goes on, whatever the capacity and
  the maximum are.
\<close>

lemma ok_with_input_pass:
  assumes re: "mhd_gtls_realloc_fast m plain (out_size + 512) = (plain1, m1)"
    and nn: "plain1 \<noteq> NULL"
    and call: "inflate (z\<lparr>next_out := ptr_add plain1 (sint cur_pos),
                 avail_out := ucast ((out_size + 512) - scast cur_pos)\<rparr>) Z_SYNC_FLUSH =
               (Z_OK, z')"
    and left: "avail_in z' \<noteq> 0"
  shows "inflate_loop inflate max_record_size z plain out_size cur_pos m =
           inflate_loop inflate max_record_size z' plain1 (out_size + 512)
             (ucast ((out_size + 512) - ucast (avail_out z'))) m1"
  by (subst inflate_loop.simps) (simp add: re nn call left)

text \<open>
  With an engine that leaves no input when it reports OK, every request of the loop but
  the first adds 512 bytes to a capacity below the maximum.
\<close>

lemma loop_capacities_aux:
  assumes "inflate_loop inflate mx z plain os cp m = Some y"
    and "input_done_when_ok inflate"
  shows "\<exists>l. alloc_log (exit_memory y) = alloc_log m @ l
           \<and> (\<forall>e \<in> set l. fst e = os + 512 \<or> fst e - 512 < mx)"
  using assms
proof (induction rule: inflate_loop_induct)
  case (step loop inflate mx z plain os cp m y)
  show ?case
  proof (cases "next_ok m")
    case False
    from loop_body_fail [OF False step(2)] show ?thesis
      by (simp del: gnutls_free.simps)
  next
    case True
    let ?m1 = "(gnutls_free m plain)\<lparr>blocks := blocks (gnutls_free m plain) @ [Some (Raw (os + 512))],
                               alloc_ok := tl (alloc_ok m),
                               alloc_log := alloc_log m @ [(os + 512, True)]\<rparr>"
    let ?p1 = "Ptr (length (blocks m)) 0"
    let ?zin = "z\<lparr>next_out := ptr_add ?p1 (sint cp),
            avail_out := ucast ((os + 512) - scast cp)\<rparr>"
    obtain err z' where call: "inflate ?zin Z_SYNC_FLUSH = (err, z')"
      by (cases "inflate ?zin Z_SYNC_FLUSH")
    note body = loop_body_ok [where inflate = inflate and loop = loop, OF True call step(2)]
    from step(3) have "fst (inflate ?zin Z_SYNC_FLUSH) \<noteq> Z_OK
        \<or> avail_in (snd (inflate ?zin Z_SYNC_FLUSH)) = 0"
      unfolding input_done_when_ok_def by blast
    then have nok: "\<not> (err = Z_OK \<and> avail_in z' \<noteq> 0)" unfolding call by simp
    show ?thesis
    proof (cases "(err = Z_BUF_ERROR \<and> avail_out z' = 0 \<and> os + 512 < mx)
                  \<or> (err = Z_OK \<and> avail_in z' \<noteq> 0)")
      case c: True
      with nok have below: "os + 512 < mx" by blast
      from body have cont: "loop inflate mx z' ?p1 (os + 512)
          (ucast ((os + 512) - ucast (avail_out z'))) ?m1 = Some y"
        by (simp only: if_P [OF c])
      from step(1) [OF cont step(3)] obtain l where
        l: "alloc_log (exit_memory y) = alloc_log ?m1 @ l"
        and b: "\<forall>e \<in> set l. fst e = os + 512 + 512 \<or> fst e - 512 < mx"
        by blast
      from l have "alloc_log (exit_memory y) = alloc_log m @ ((os + 512, True) # l)"
        by simp
      moreover have "\<forall>e \<in> set ((os + 512, True) # l). fst e = os + 512 \<or> fst e - 512 < mx"
      proof
        fix e assume "e \<in> set ((os + 512, True) # l)"
        then consider "e = (os + 512, True)" | "e \<in> set l" by auto
        then show "fst e = os + 512 \<or> fst e - 512 < mx"
        proof cases
          case 1
          then show ?thesis by simp
        next
          case 2
          with b have "fst e = os + 512 + 512 \<or> fst e - 512 < mx" by blast
          then show ?thesis
          proof
            assume "fst e = os + 512 + 512"
            then have "fst e - 512 = os + 512" by simp
            with below have "fst e - 512 < mx" by (simp only:)
            then show ?thesis ..
          qed simp
        qed
      qed
      ultimately show ?thesis by blast
    next
      case c: False
      from body have y: "y = Left err z' ?p1 (os + 512) ?m1"
        by (simp only: if_not_P [OF c] option.inject)
      then show ?thesis by (simp del: gnutls_free.simps)
    qed
  qed
qed

lemma loop_capacities:
  assumes "inflate_loop inflate mx z plain os cp m = Some y"
    and "input_done_when_ok inflate"
  shows "\<forall>e \<in> set (drop (length (alloc_log m)) (alloc_log (exit_memory y))).
           fst e = os + 512 \<or> fst e - 512 < mx"
  using loop_capacities_aux [OF assms] by auto

text \<open>Termination, by a lexicographic measure: the engine's, then the room below the maximum.\<close>

lemma step_no_wrap:
  fixes os mx :: size_t
  assumes "os < mx" and "unat mx + 512 < 2 ^ 64"
  shows "unat mx - unat (os + 512) < unat mx - unat os"
proof -
  from assms(1) have lt: "unat os < unat mx" by (simp add: word_less_nat_alt)
  with assms(2) have "unat os + 512 < 2 ^ 64" by simp
  then have "unat (os + 512) = unat os + 512" by (simp add: unat_word_ariths)
  with lt show ?thesis by simp
qed

lemma loop_terminates:
  assumes prog: "makes_progress \<mu> inflate" and mx: "unat mx + 512 < 2 ^ 64"
  shows "\<exists>y. inflate_loop inflate mx z plain os cp m = Some y"
proof -
  define R where "R = inv_image (less_than <*lex*> less_than)
      (\<lambda>s :: 'a z_stream \<times> uLongf. (\<mu> (fst s), unat mx - unat (snd s + 512)))"
  have wfR: "wf R" unfolding R_def by (intro wf_inv_image wf_lex_prod wf_less_than)
  have "\<forall>plain cp m. \<exists>y. inflate_loop inflate mx (fst s) plain (snd s) cp m = Some y" for s
  proof (induction s rule: wf_induct_rule [OF wfR])
    case (1 s)
    obtain z os where s: "s = (z, os)" by (cases s)
    show ?case
    proof (intro allI)
      fix plain cp and m :: "'a memory"
      show "\<exists>y. inflate_loop inflate mx (fst s) plain (snd s) cp m = Some y"
      proof (cases "next_ok m")
        case False
        then show ?thesis by (simp add: s inflate_loop_fail del: gnutls_free.simps)
      next
        case True
        let ?zin = "z\<lparr>next_out := ptr_add (Ptr (length (blocks m)) 0) (sint cp),
            avail_out := ucast ((os + 512) - scast cp)\<rparr>"
        obtain err z' where call: "inflate ?zin Z_SYNC_FLUSH = (err, z')"
          by (cases "inflate ?zin Z_SYNC_FLUSH")
        note eq = inflate_loop_ok [where inflate = inflate and mx = mx and plain = plain,
            OF True call]
        from prog have mu: "\<mu> ?zin = \<mu> z" unfolding makes_progress_def by blast
        from prog call have p1: "err = Z_OK \<Longrightarrow> avail_in z' \<noteq> 0 \<Longrightarrow> \<mu> z' < \<mu> ?zin"
          unfolding makes_progress_def by (metis fst_conv snd_conv)
        from prog call have p2: "err = Z_BUF_ERROR \<Longrightarrow> \<mu> z' \<le> \<mu> ?zin"
          unfolding makes_progress_def by (metis fst_conv snd_conv)
        show ?thesis
        proof (cases "(err = Z_BUF_ERROR \<and> avail_out z' = 0 \<and> os + 512 < mx)
                  \<or> (err = Z_OK \<and> avail_in z' \<noteq> 0)")
          case c: True
          have "((z', os + 512), s) \<in> R"
          proof -
            from c consider (buf) "err = Z_BUF_ERROR" "os + 512 < mx"
              | (ok) "err = Z_OK" "avail_in z' \<noteq> 0" by blast
            then show ?thesis
            proof cases
              case buf
              from step_no_wrap [OF buf(2) mx] p2 [OF buf(1)] mu show ?thesis
                by (auto simp: R_def s)
            next
              case ok
              from p1 [OF ok] mu show ?thesis by (simp add: R_def s)
            qed
          qed
          from 1 [OF this] have "\<exists>y. inflate_loop inflate mx z' (Ptr (length (blocks m)) 0) (os + 512)
                      (ucast ((os + 512) - ucast (avail_out z')))
                      ((gnutls_free m plain)\<lparr>blocks := blocks (gnutls_free m plain) @ [Some (Raw (os + 512))],
                               alloc_ok := tl (alloc_ok m),
                               alloc_log := alloc_log m @ [(os + 512, True)]\<rparr>) = Some y"
            by (simp del: gnutls_free.simps)
          then show ?thesis unfolding s fst_conv snd_conv eq by (simp only: if_P [OF c])
        next
          case c: False
          show ?thesis unfolding s fst_conv snd_conv eq by (simp only: if_not_P [OF c]) blast
        qed
      qed
    qed
  qed
  from this [of "(z, os)"] show ?thesis by simp
qed

text \<open>Termination, whatever the engine does, when a later request to the allocator fails.\<close>

lemma loop_terminates_alloc:
  assumes "False \<in> set (alloc_ok m)"
  shows "\<exists>y. inflate_loop inflate mx z plain os cp m = Some y"
  using assms
proof (induction "alloc_ok m" arbitrary: m z plain os cp)
  case Nil
  then show ?case by simp
next
  case (Cons ok script)
  show ?case
  proof (cases "next_ok m")
    case False
    then show ?thesis by (simp add: inflate_loop_fail del: gnutls_free.simps)
  next
    case True
    let ?m1 = "(gnutls_free m plain)\<lparr>blocks := blocks (gnutls_free m plain) @ [Some (Raw (os + 512))],
                               alloc_ok := tl (alloc_ok m),
                               alloc_log := alloc_log m @ [(os + 512, True)]\<rparr>"
    let ?zin = "z\<lparr>next_out := ptr_add (Ptr (length (blocks m)) 0) (sint cp),
            avail_out := ucast ((os + 512) - scast cp)\<rparr>"
    obtain err z' where call: "inflate ?zin Z_SYNC_FLUSH = (err, z')"
      by (cases "inflate ?zin Z_SYNC_FLUSH")
    note eq = inflate_loop_ok [where inflate = inflate and mx = mx and plain = plain,
        OF True call]
    from Cons(2) have sc: "alloc_ok m = ok # script" by simp
    from sc True have ok: "ok" by (simp add: next_ok_def)
    from sc have script: "script = alloc_ok ?m1" by simp
    from Cons(3) sc ok have "False \<in> set (alloc_ok ?m1)" by auto
    from Cons(1) [OF script this]
    have rec: "\<exists>y. inflate_loop inflate mx z' (Ptr (length (blocks m)) 0) (os + 512)
        (ucast ((os + 512) - ucast (avail_out z'))) ?m1 = Some y" .
    show ?thesis
    proof (cases "(err = Z_BUF_ERROR \<and> avail_out z' = 0 \<and> os + 512 < mx)
                  \<or> (err = Z_OK \<and> avail_in z' \<noteq> 0)")
      case c: True
      from rec show ?thesis unfolding eq by (simp only: if_P [OF c])
    next
      case c: False
      show ?thesis unfolding eq by (simp only: if_not_P [OF c]) blast
    qed
  qed
qed

lemma loop_returns:
  assumes "(makes_progress \<mu> inflate \<and> unat mx + 512 < 2 ^ 64) \<or> False \<in> set (alloc_ok m)"
  shows "\<exists>y. inflate_loop inflate mx z plain os cp m = Some y"
  using assms loop_terminates [of \<mu> inflate mx z plain os cp m]
    loop_terminates_alloc [of m inflate mx z plain os cp]
  by blast

text \<open>With the engine that reports OK and consumes nothing, no pass leaves the loop.\<close>

lemma stall_never_leaves:
  assumes "inflate_loop inflate mx z plain os cp m = Some y"
    and "inflate = stall_transform" and "avail_in z \<noteq> 0" and "alloc_ok m = []"
  shows False
  using assms
proof (induction rule: inflate_loop_induct)
  case (step loop inflate mx z plain os cp m y)
  from step(5) have ok: "next_ok m" by (simp add: next_ok_def)
  let ?zin = "z\<lparr>next_out := ptr_add (Ptr (length (blocks m)) 0) (sint cp),
            avail_out := ucast ((os + 512) - scast cp)\<rparr>"
  from step(3) have call: "inflate ?zin Z_SYNC_FLUSH = (Z_OK, ?zin)"
    by (simp add: stall_transform_def)
  note body = loop_body_ok [where inflate = inflate and loop = loop, OF ok call step(2)]
  from step(4) have c: "(Z_OK = Z_BUF_ERROR \<and> avail_out ?zin = 0 \<and> os + 512 < mx)
                  \<or> (Z_OK = Z_OK \<and> avail_in ?zin \<noteq> 0)" by simp
  from body have cont: "loop inflate mx ?zin (Ptr (length (blocks m)) 0) (os + 512)
          (ucast ((os + 512) - ucast (avail_out ?zin)))
          ((gnutls_free m plain)\<lparr>blocks := blocks (gnutls_free m plain) @ [Some (Raw (os + 512))],
                               alloc_ok := tl (alloc_ok m),
                               alloc_log := alloc_log m @ [(os + 512, True)]\<rparr>) = Some y"
    by (simp only: if_P [OF c])
  from step(1) [OF cont step(3)] step(4) step(5) show False
    by (simp del: gnutls_free.simps)
qed

lemma stall_diverges:
  assumes "avail_in z \<noteq> 0" and "alloc_ok m = []"
  shows "inflate_loop stall_transform mx z plain os cp m = None"
proof (cases "inflate_loop stall_transform mx z plain os cp m")
  case None
  then show ?thesis .
next
  case (Some y)
  from stall_never_leaves [OF Some refl assms] show ?thesis ..
qed

subsection \<open>Decompress\<close>

lemma decompress_switch_Return:
  assumes "decompress_switch inflate hdl c cs plain mx m = Returns (Return (r, p, m'))"
  shows "r = GNUTLS_E_MEMORY_ERROR \<or> r = GNUTLS_E_DECOMPRESSION_FAILED
           \<or> r = GNUTLS_E_INTERNAL_ERROR"
  using assms
  by (auto simp: decompress_switch_def Let_def
      split: option.splits CompressionMethod.splits prod.splits if_splits loop_exit.splits)

lemma decompress_bound:
  assumes "mhd_gtls_decompress extra inflate hdl c cs plain mx m = Returns (r, p, m')"
    and "0 \<le> sint r"
  shows "sint r \<le> uint mx"
  using assms codes_negative
  by (auto simp: mhd_gtls_decompress_def post_check_bound
      dest!: decompress_switch_Return
      split: if_splits run.splits switch.splits prod.splits)

lemma upfront_reject:
  assumes "unat max_record_size + unat extra < unat compressed_size"
  shows "mhd_gtls_decompress extra inflate hdl compressed compressed_size plain
           max_record_size m = Returns (GNUTLS_E_DECOMPRESSION_FAILED, plain, m)"
  using upfront_word[OF assms] by (simp add: mhd_gtls_decompress_def)

lemma decompress_deflate:
  assumes hd: "get_hd m hdl = Some h" and al: "algo h = MHD_GNUTLS_COMP_DEFLATE"
    and zs: "get_zs m (handle h) = Some z"
    and pass: "\<not> mx + extra < cs"
  shows "mhd_gtls_decompress extra inflate hdl c cs plain mx m =
    (case inflate_loop inflate mx (z\<lparr>next_in := c, avail_in := ucast cs\<rparr>) NULL (cs + cs) 0 m of
       None \<Rightarrow> Diverges
     | Some (NoMemory z' m1) \<Rightarrow>
         Returns (GNUTLS_E_MEMORY_ERROR, NULL, put_obj m1 (handle h) (Zs z'))
     | Some (Left err z' p1 os m1) \<Rightarrow>
         if err \<noteq> Z_OK \<or> mx < scast (ucast (os - ucast (avail_out z')) :: c_int)
         then Returns (GNUTLS_E_DECOMPRESSION_FAILED, NULL,
                gnutls_free (put_obj m1 (handle h) (Zs z')) p1)
         else Returns (ucast (os - ucast (avail_out z')), p1, put_obj m1 (handle h) (Zs z')))"
proof -
  from hd have nn: "hdl \<noteq> NULL" by (cases hdl) simp_all
  show ?thesis
    using hd al zs pass nn
    by (simp add: mhd_gtls_decompress_def decompress_switch_def Let_def
        split: option.splits loop_exit.splits del: gnutls_free.simps put_obj.simps)
qed

lemma decompress_not_deflate:
  assumes "mhd_gtls_decompress extra inflate hdl c cs plain mx m = Returns (r, p, m')"
    and "\<not> (\<exists>h z. get_hd m hdl = Some h \<and> algo h = MHD_GNUTLS_COMP_DEFLATE
              \<and> get_zs m (handle h) = Some z \<and> \<not> mx + extra < cs)"
  shows "p = plain \<and> m' = m"
  using assms
  by (auto simp: mhd_gtls_decompress_def decompress_switch_def
      split: if_splits option.splits CompressionMethod.splits)

lemma decompress_failure_paths:
  assumes ret: "mhd_gtls_decompress extra inflate hdl c cs plain mx m = Returns (r, p, m')"
    and neg: "sint r < 0" and small: "uint mx < 2 ^ 64 - 2 ^ 31"
  shows "(p = NULL \<or> (p = plain \<and> m' = m)) \<and> dom (lookup m') = dom (lookup m)"
proof (cases "\<exists>h z. get_hd m hdl = Some h \<and> algo h = MHD_GNUTLS_COMP_DEFLATE
              \<and> get_zs m (handle h) = Some z \<and> \<not> mx + extra < cs")
  case False
  from decompress_not_deflate [OF ret False] show ?thesis by simp
next
  case True
  then obtain h z where hd: "get_hd m hdl = Some h" and al: "algo h = MHD_GNUTLS_COMP_DEFLATE"
    and zs: "get_zs m (handle h) = Some z" and pass: "\<not> mx + extra < cs" by blast
  let ?loop = "inflate_loop inflate mx (z\<lparr>next_in := c, avail_in := ucast cs\<rparr>) NULL (cs + cs) 0 m"
  note eq = decompress_deflate [where inflate = inflate and c = c and plain = plain,
      OF hd al zs pass]
  show ?thesis
  proof (cases ?loop)
    case None
    with eq ret show ?thesis by simp
  next
    case (Some y)
    show ?thesis
    proof (cases y)
      case (NoMemory z' m1)
      from loop_blocks [OF Some] NoMemory obtain k where
        bl: "blocks m1 = blocks m @ replicate k None" by auto
      from eq ret Some NoMemory have "p = NULL" "m' = put_obj m1 (handle h) (Zs z')"
        by simp_all
      with live_after_nomem [OF bl zs] show ?thesis by simp
    next
      case (Left err z' p1 os m1)
      from loop_blocks [OF Some] Left obtain k where
        bl: "blocks m1 = blocks m @ replicate k None @ [Some (Raw os)]"
        and p1: "p1 = Ptr (length (blocks m) + k) 0" by auto
      let ?len = "ucast (os - ucast (avail_out z')) :: c_int"
      show ?thesis
      proof (cases "err \<noteq> Z_OK \<or> mx < scast ?len")
        case True
        with eq ret Some Left
        have "p = NULL" "m' = gnutls_free (put_obj m1 (handle h) (Zs z')) p1"
          by (simp_all del: gnutls_free.simps put_obj.simps)
        with live_after_release [OF bl zs] p1 show ?thesis by simp
      next
        case False
        with eq ret Some Left have "r = ?len"
          by (simp del: gnutls_free.simps put_obj.simps)
        with neg scast_negative_large have "2 ^ 64 - 2 ^ 31 \<le> uint (scast ?len :: size_t)"
          by blast
        with small have "mx < scast ?len" by (simp add: word_less_def)
        with False show ?thesis by simp
      qed
    qed
  qed
qed

lemma decompress_failure_clean:
  assumes ret: "mhd_gtls_decompress extra inflate hdl c cs plain mx m = Returns (r, p, m')"
    and fail: "(n, False) \<in> set (drop (length (alloc_log m)) (alloc_log m'))"
  shows "r = GNUTLS_E_MEMORY_ERROR \<and> p = NULL \<and> dom (lookup m') = dom (lookup m)"
proof (cases "\<exists>h z. get_hd m hdl = Some h \<and> algo h = MHD_GNUTLS_COMP_DEFLATE
              \<and> get_zs m (handle h) = Some z \<and> \<not> mx + extra < cs")
  case False
  from decompress_not_deflate [OF ret False] fail show ?thesis by simp
next
  case True
  then obtain h z where hd: "get_hd m hdl = Some h" and al: "algo h = MHD_GNUTLS_COMP_DEFLATE"
    and zs: "get_zs m (handle h) = Some z" and pass: "\<not> mx + extra < cs" by blast
  let ?loop = "inflate_loop inflate mx (z\<lparr>next_in := c, avail_in := ucast cs\<rparr>) NULL (cs + cs) 0 m"
  note eq = decompress_deflate [where inflate = inflate and c = c and plain = plain,
      OF hd al zs pass]
  show ?thesis
  proof (cases ?loop)
    case None
    with eq ret show ?thesis by simp
  next
    case (Some y)
    show ?thesis
    proof (cases y)
      case (NoMemory z' m1)
      from loop_blocks [OF Some] NoMemory obtain k where
        bl: "blocks m1 = blocks m @ replicate k None" by auto
      from eq ret Some NoMemory
      have "r = GNUTLS_E_MEMORY_ERROR" "p = NULL" "m' = put_obj m1 (handle h) (Zs z')"
        by simp_all
      with live_after_nomem [OF bl zs] show ?thesis by simp
    next
      case (Left err z' p1 os m1)
      from loop_log [OF Some] Left obtain ns where
        lg: "alloc_log m1 = alloc_log m @ map (\<lambda>n. (n, True)) ns" by auto
      from eq ret Some Left have "alloc_log m' = alloc_log m1"
        by (auto simp del: gnutls_free.simps put_obj.simps split: if_splits)
      with fail lg show ?thesis by auto
    qed
  qed
qed

lemma decompress_Diverges:
  assumes "mhd_gtls_decompress extra inflate hdl c cs plain mx m = Diverges"
  shows "\<exists>z. inflate_loop inflate mx z NULL (cs + cs) 0 m = None"
  using assms
  by (auto simp: mhd_gtls_decompress_def decompress_switch_def Let_def
      simp del: gnutls_free.simps put_obj.simps
      split: if_splits option.splits CompressionMethod.splits loop_exit.splits
        run.splits switch.splits prod.splits)

lemma decompress_capacities:
  assumes ret: "mhd_gtls_decompress extra inflate hdl compressed compressed_size plain
                  max_record_size m = Returns (r, p, m')"
    and eng: "input_done_when_ok inflate"
  shows "\<forall>e \<in> set (drop (length (alloc_log m)) (alloc_log m')).
           fst e = compressed_size + compressed_size + 512
           \<or> fst e - 512 < max_record_size"
proof (cases "\<exists>h z. get_hd m hdl = Some h \<and> algo h = MHD_GNUTLS_COMP_DEFLATE
              \<and> get_zs m (handle h) = Some z \<and> \<not> max_record_size + extra < compressed_size")
  case False
  from decompress_not_deflate [OF ret False] show ?thesis by simp
next
  case True
  then obtain h z where hd: "get_hd m hdl = Some h" and al: "algo h = MHD_GNUTLS_COMP_DEFLATE"
    and zs: "get_zs m (handle h) = Some z"
    and pass: "\<not> max_record_size + extra < compressed_size" by blast
  let ?loop = "inflate_loop inflate max_record_size
      (z\<lparr>next_in := compressed, avail_in := ucast compressed_size\<rparr>) NULL
      (compressed_size + compressed_size) 0 m"
  note eq = decompress_deflate [where inflate = inflate and c = compressed and plain = plain,
      OF hd al zs pass]
  show ?thesis
  proof (cases ?loop)
    case None
    with eq ret show ?thesis by simp
  next
    case (Some y)
    have "alloc_log m' = alloc_log (exit_memory y)"
    proof (cases y)
      case (NoMemory z' m1)
      with eq ret Some show ?thesis by auto
    next
      case (Left err z' p1 os m1)
      with eq ret Some show ?thesis
        by (cases "err \<noteq> Z_OK \<or> max_record_size < scast (ucast (os - ucast (avail_out z')) :: c_int)")
          (auto simp del: gnutls_free.simps put_obj.simps)
    qed
    with loop_capacities [OF Some eng] show ?thesis by simp
  qed
qed

subsection \<open>The example calls\<close>

lemma space_monotone_store: "space_monotone store_transform"
  by (simp add: space_monotone_def store_transform_def Let_def word_sub_le)

lemma progress_store: "makes_progress (\<lambda>z. unat (avail_in z)) store_transform"
proof -
  have "unat (a - min a b) < unat a" if "a - min a b \<noteq> 0" "\<not> (a \<noteq> 0 \<and> min a b = 0)"
    for a b :: uInt
  proof -
    from that have nz: "min a b \<noteq> 0" by auto
    have le: "min a b \<le> a" by simp
    then have "unat (a - min a b) = unat a - unat (min a b)" by (rule unat_sub)
    moreover from nz have "0 < unat (min a b)" by (simp add: unat_gt_0)
    moreover from le have "unat (min a b) \<le> unat a" by (simp add: word_le_nat_alt)
    ultimately show ?thesis by linarith
  qed
  moreover have "unat (a - min a b) \<le> unat a" for a b :: uInt
  proof -
    have "a - min a b \<le> a" by (simp add: word_sub_le)
    then show ?thesis by (simp add: word_le_nat_alt)
  qed
  ultimately show ?thesis
    by (simp add: makes_progress_def store_transform_def Let_def buf_not_ok)
qed

lemma demo_handle:
  "get_hd demo_memory (Ptr 0 0) = Some \<lparr>handle = Ptr 1 0, algo = MHD_GNUTLS_COMP_DEFLATE\<rparr>"
  "get_zs demo_memory (Ptr 1 0) =
     Some \<lparr>next_in = NULL, avail_in = 0, next_out = NULL, avail_out = 0, internal = ()\<rparr>"
  "next_ok demo_memory" "length (blocks demo_memory) = 2" "alloc_log demo_memory = []"
  by (simp_all add: demo_memory_def lookup_def next_ok_def)

lemma demo_init:
  "mhd_gtls_comp_init demo_engine MHD_GNUTLS_COMP_DEFLATE True (empty_memory_with [])
     = (Ptr 0 0, demo_memory\<lparr>alloc_log := [(16, True), (112, True)]\<rparr>)"
  by code_simp

lemma demo_compress:
  "mhd_gtls_compress store_transform (Ptr 0 0) (Ptr 7 0) 3 NULL mx demo_memory =
     (if mx < 3 then Returns (GNUTLS_E_COMPRESSION_FAILED, NULL,
        \<lparr>blocks = [Some (Hd \<lparr>handle = Ptr 1 0, algo = MHD_GNUTLS_COMP_DEFLATE\<rparr>),
                   Some (Zs \<lparr>next_in = Ptr 7 3, avail_in = 0, next_out = Ptr 2 3,
                             avail_out = 13, internal = ()\<rparr>), None],
         alloc_ok = [], alloc_log = [(16, True)]\<rparr>)
      else Returns (3, Ptr 2 0,
        \<lparr>blocks = [Some (Hd \<lparr>handle = Ptr 1 0, algo = MHD_GNUTLS_COMP_DEFLATE\<rparr>),
                   Some (Zs \<lparr>next_in = Ptr 7 3, avail_in = 0, next_out = Ptr 2 3,
                             avail_out = 13, internal = ()\<rparr>), Some (Raw 16)],
         alloc_ok = [], alloc_log = [(16, True)]\<rparr>))"
  by (simp add: mhd_gtls_compress_def compress_switch_def demo_memory_def store_transform_def
      gnutls_malloc_def next_ok_def lookup_def Z_OK_def Z_SYNC_FLUSH_def Z_BUF_ERROR_def)

lemma demo_store_call:
  "store_transform
     (\<lparr>next_in = NULL, avail_in = 0, next_out = NULL, avail_out = 0, internal = ()\<rparr>
        \<lparr>next_in := Ptr 7 0, avail_in := ucast (3 :: size_t),
         next_out := Ptr (length (blocks demo_memory)) 0,
         avail_out := ucast (((3 :: size_t) + 3) + 10)\<rparr>) Z_SYNC_FLUSH =
   (Z_OK, \<lparr>next_in = Ptr 7 3, avail_in = 0, next_out = Ptr 2 3, avail_out = 13,
           internal = ()\<rparr>)"
  by (simp add: store_transform_def demo_memory_def Z_OK_def Z_BUF_ERROR_def)

lemma demo_stall_call:
  "stall_transform
     (\<lparr>next_in = NULL, avail_in = 0, next_out = NULL, avail_out = 0, internal = ()\<rparr>
        \<lparr>next_in := Ptr 7 0, avail_in := ucast (3 :: size_t),
         next_out := Ptr (length (blocks demo_memory)) 0,
         avail_out := ucast (((3 :: size_t) + 3) + 10)\<rparr>) Z_SYNC_FLUSH =
   (Z_OK, \<lparr>next_in = Ptr 7 0, avail_in = 3, next_out = Ptr 2 0, avail_out = 16,
           internal = ()\<rparr>)"
  by (simp add: stall_transform_def demo_memory_def)

lemma demo_decompress_switch:
  "decompress_switch store_transform (Ptr 0 0) (Ptr 7 0) 3 NULL mx demo_memory =
     Returns (Break (3, Ptr 2 0,
        \<lparr>blocks = [Some (Hd \<lparr>handle = Ptr 1 0, algo = MHD_GNUTLS_COMP_DEFLATE\<rparr>),
                   Some (Zs \<lparr>next_in = Ptr 7 3, avail_in = 0, next_out = Ptr 2 3,
                             avail_out = 515, internal = ()\<rparr>), Some (Raw 518)],
         alloc_ok = [], alloc_log = [(518, True)]\<rparr>))"
  apply (simp add: decompress_switch_def demo_memory_def lookup_def)
  apply (subst inflate_loop.simps)
  apply (simp add: mhd_gtls_realloc_fast_def gnutls_malloc_def next_ok_def store_transform_def
       Z_OK_def Z_SYNC_FLUSH_def Z_BUF_ERROR_def)
  done

lemma demo_init_fails:
  "mhd_gtls_comp_init demo_engine MHD_GNUTLS_COMP_DEFLATE True (empty_memory_with [True, False])
     = (NULL, \<lparr>blocks = [None], alloc_ok = [], alloc_log = [(16, True), (112, False)]\<rparr>)"
  by code_simp

lemma demo_compress_fails:
  "mhd_gtls_compress store_transform (Ptr 0 0) (Ptr 7 0) 3 NULL 100 (demo_memory_with [False])
     = Returns (GNUTLS_E_MEMORY_ERROR, NULL,
         \<lparr>blocks = [Some (Hd \<lparr>handle = Ptr 1 0, algo = MHD_GNUTLS_COMP_DEFLATE\<rparr>),
                    Some (Zs \<lparr>next_in = NULL, avail_in = 0, next_out = NULL, avail_out = 0,
                              internal = ()\<rparr>)],
           alloc_ok = [], alloc_log = [(16, False)]\<rparr>)"
  by code_simp

lemma demo_decompress_fails:
  "mhd_gtls_decompress 2048 stall_transform (Ptr 0 0) (Ptr 7 0) 1 NULL 100
       (demo_memory_with [True, False])
     = Returns (GNUTLS_E_MEMORY_ERROR, NULL,
         \<lparr>blocks = [Some (Hd \<lparr>handle = Ptr 1 0, algo = MHD_GNUTLS_COMP_DEFLATE\<rparr>),
                    Some (Zs \<lparr>next_in = Ptr 7 0, avail_in = 1, next_out = Ptr 2 0,
                              avail_out = 514, internal = ()\<rparr>), None],
           alloc_ok = [], alloc_log = [(514, True), (1026, False)]\<rparr>)"
  by code_simp

lemma demo_full_loop:
  "inflate_loop full_transform 100
     (\<lparr>next_in = NULL, avail_in = 0, next_out = NULL, avail_out = 0, internal = ()\<rparr>
        \<lparr>next_in := Ptr 7 0, avail_in := ucast (3 :: size_t)\<rparr>)
     NULL ((3 :: size_t) + 3) 0 demo_memory =
   Some (Left Z_BUF_ERROR
     \<lparr>next_in = Ptr 7 0, avail_in = 3, next_out = Ptr 2 0, avail_out = 0, internal = ()\<rparr>
     (Ptr 2 0) 518
     \<lparr>blocks = [Some (Hd \<lparr>handle = Ptr 1 0, algo = MHD_GNUTLS_COMP_DEFLATE\<rparr>),
                Some (Zs \<lparr>next_in = NULL, avail_in = 0, next_out = NULL, avail_out = 0,
                          internal = ()\<rparr>),
                Some (Raw 518)],
       alloc_ok = [], alloc_log = [(518, True)]\<rparr>)"
  by code_simp

lemma demo_store_loop:
  "inflate_loop store_transform 100
     \<lparr>next_in = Ptr 7 0, avail_in = 3, next_out = NULL, avail_out = 0, internal = ()\<rparr>
     NULL 6 0 demo_memory =
   Some (Left Z_OK
     \<lparr>next_in = Ptr 7 3, avail_in = 0, next_out = Ptr 2 3, avail_out = 515, internal = ()\<rparr>
     (Ptr 2 0) 518
     \<lparr>blocks = [Some (Hd \<lparr>handle = Ptr 1 0, algo = MHD_GNUTLS_COMP_DEFLATE\<rparr>),
                Some (Zs \<lparr>next_in = NULL, avail_in = 0, next_out = NULL, avail_out = 0,
                          internal = ()\<rparr>),
                Some (Raw 518)],
       alloc_ok = [], alloc_log = [(518, True)]\<rparr>)"
  by code_simp

lemma progress_fill: "makes_progress (\<lambda>z. unat (avail_in z)) fill_transform"
proof -
  have "unat (w - 1) < unat w" if "w \<noteq> 0" for w :: uInt
    using that unat_minus_one [of w] unat_gt_0 [of w] by simp
  then show ?thesis
    using buf_not_ok by (auto simp: makes_progress_def fill_transform_def split: if_splits)
qed

section \<open>The claims\<close>

subsection \<open>Bound enforcement\<close>

text \<open>
  C1. Whenever \<^verbatim>\<open>mhd_gtls_compress\<close> or \<^verbatim>\<open>mhd_gtls_decompress\<close> returns a non-negative
  length, that length is at most the maximum the caller passed. The bound comes from the
  check after the \<^verbatim>\<open>switch\<close>: a length that leaves the \<^verbatim>\<open>switch\<close> and exceeds the
  maximum (compared as \<^verbatim>\<open>size_t\<close>, as the code does) becomes the failure code, the buffer
  is released and the output pointer is null; the output is never cut down to the maximum.
\<close>

theorem C1_bound_enforcement:
  "(mhd_gtls_compress deflate hdl plain plain_size compressed max_comp_size m =
      Returns (r, p, m') \<longrightarrow> 0 \<le> sint r \<longrightarrow> sint r \<le> uint max_comp_size)
   \<and> (mhd_gtls_decompress extra inflate hdl' cmp cs pl max_record_size n =
      Returns (r', p', n') \<longrightarrow> 0 \<le> sint r' \<longrightarrow> sint r' \<le> uint max_record_size)
   \<and> (hdl \<noteq> NULL \<longrightarrow>
        compress_switch deflate hdl plain plain_size compressed m =
          Returns (Break (len, c1, m1)) \<longrightarrow>
        max_comp_size < scast len \<longrightarrow>
        mhd_gtls_compress deflate hdl plain plain_size compressed max_comp_size m =
          Returns (GNUTLS_E_COMPRESSION_FAILED, NULL, gnutls_free m1 c1))
   \<and> (hdl' \<noteq> NULL \<longrightarrow> \<not> max_record_size + extra < cs \<longrightarrow>
        decompress_switch inflate hdl' cmp cs pl max_record_size n =
          Returns (Break (len', p1, n1)) \<longrightarrow>
        max_record_size < scast len' \<longrightarrow>
        mhd_gtls_decompress extra inflate hdl' cmp cs pl max_record_size n =
          Returns (GNUTLS_E_DECOMPRESSION_FAILED, NULL, gnutls_free n1 p1))"
  by (simp add: compress_bound decompress_bound mhd_gtls_compress_def
      mhd_gtls_decompress_def)

theorem C1_bound_enforcement_witness:
  "(\<exists>m'. mhd_gtls_compress store_transform (Ptr 0 0) (Ptr 7 0) 3 NULL 100 demo_memory =
           Returns (3, Ptr 2 0, m'))
   \<and> 0 \<le> sint (3 :: c_int) \<and> sint (3 :: c_int) \<le> uint (100 :: size_t)
   \<and> (\<exists>n'. mhd_gtls_decompress 2048 store_transform (Ptr 0 0) (Ptr 7 0) 3 NULL 100
              demo_memory = Returns (3, Ptr 2 0, n'))
   \<and> (\<exists>m1. compress_switch store_transform (Ptr 0 0) (Ptr 7 0) 3 NULL demo_memory =
              Returns (Break (3, Ptr 2 0, m1))
         \<and> (2 :: size_t) < scast (3 :: c_int)
         \<and> mhd_gtls_compress store_transform (Ptr 0 0) (Ptr 7 0) 3 NULL 2 demo_memory =
              Returns (GNUTLS_E_COMPRESSION_FAILED, NULL, gnutls_free m1 (Ptr 2 0)))
   \<and> (\<exists>n1. decompress_switch store_transform (Ptr 0 0) (Ptr 7 0) 3 NULL 2 demo_memory =
              Returns (Break (3, Ptr 2 0, n1))
         \<and> mhd_gtls_decompress 2048 store_transform (Ptr 0 0) (Ptr 7 0) 3 NULL 2
              demo_memory = Returns (GNUTLS_E_DECOMPRESSION_FAILED, NULL,
                                     gnutls_free n1 (Ptr 2 0)))"
proof -
  have pos: "0 \<le> sint (3 :: c_int)" by simp
  have gt: "(2 :: size_t) < scast (3 :: c_int)" by simp
  have nn: "Ptr 0 0 \<noteq> NULL" by simp
  have ok: "\<not> (2 :: size_t) + 2048 < 3" by simp
  obtain m' where c: "mhd_gtls_compress store_transform (Ptr 0 0) (Ptr 7 0) 3 NULL 100
      demo_memory = Returns (3, Ptr 2 0, m')"
    by (simp add: demo_compress)
  obtain m1 where cs: "compress_switch store_transform (Ptr 0 0) (Ptr 7 0) 3 NULL demo_memory =
      Returns (Break (3, Ptr 2 0, m1))"
    by (simp add: compress_switch_def demo_memory_def store_transform_def
      gnutls_malloc_def next_ok_def lookup_def Z_OK_def Z_SYNC_FLUSH_def Z_BUF_ERROR_def)
  obtain n1 where ds: "decompress_switch store_transform (Ptr 0 0) (Ptr 7 0) 3 NULL 2
      demo_memory = Returns (Break (3, Ptr 2 0, n1))"
    by (simp add: demo_decompress_switch)
  obtain n' where d: "mhd_gtls_decompress 2048 store_transform (Ptr 0 0) (Ptr 7 0) 3 NULL 100
      demo_memory = Returns (3, Ptr 2 0, n')"
    by (simp add: mhd_gtls_decompress_def demo_decompress_switch)
  note T = C1_bound_enforcement
  from T [where deflate = store_transform and hdl = "Ptr 0 0" and plain = "Ptr 7 0"
      and plain_size = 3 and compressed = NULL and max_comp_size = 100 and m = demo_memory
      and r = 3 and p = "Ptr 2 0" and m' = m']
  have b1: "sint (3 :: c_int) \<le> uint (100 :: size_t)" using c pos by blast
  from T [where deflate = store_transform and hdl = "Ptr 0 0" and plain = "Ptr 7 0"
      and plain_size = 3 and compressed = NULL and max_comp_size = 2 and m = demo_memory
      and len = 3 and ?c1.0 = "Ptr 2 0" and ?m1.0 = m1]
  have b3: "mhd_gtls_compress store_transform (Ptr 0 0) (Ptr 7 0) 3 NULL 2 demo_memory =
              Returns (GNUTLS_E_COMPRESSION_FAILED, NULL, gnutls_free m1 (Ptr 2 0))"
    using nn cs gt by blast
  from T [where extra = 2048 and inflate = store_transform and hdl' = "Ptr 0 0"
      and cmp = "Ptr 7 0" and cs = 3 and pl = NULL and max_record_size = 2 and n = demo_memory
      and len' = 3 and ?p1.0 = "Ptr 2 0" and ?n1.0 = n1]
  have b4: "mhd_gtls_decompress 2048 store_transform (Ptr 0 0) (Ptr 7 0) 3 NULL 2
              demo_memory = Returns (GNUTLS_E_DECOMPRESSION_FAILED, NULL,
                                     gnutls_free n1 (Ptr 2 0))"
    using nn ds gt ok by blast
  from c pos b1 d cs gt b3 ds b4 show ?thesis by blast
qed

subsection \<open>The growth loop and the maximum\<close>

text \<open>
  C2. The claim asks that the buffer is not grown again once its capacity has reached
  \<^verbatim>\<open>max_record_size\<close>. The loop condition tests the capacity against
  \<^verbatim>\<open>max_record_size\<close> only after a buffer-exhausted report; after an OK report with
  input left it goes on without that test. In the call below, with four input bytes and
  \<^verbatim>\<open>max_record_size = 600\<close>, the engine fills the space offered and reports OK: the
  call asks for 520, 1032, 1544 and 2056 bytes, the last two when the capacity is
  already above 600, and fails only at the check after the loop. With the engine that
  reports buffer-exhausted instead, the same call stops growing at 1032 bytes.
\<close>

theorem C2_growth_after_ok_ignores_maximum:
  "mhd_gtls_decompress 2048 fill_transform (Ptr 0 0) (Ptr 7 0) 4 NULL 600 demo_memory =
     Returns (GNUTLS_E_DECOMPRESSION_FAILED, NULL,
       \<lparr>blocks = [Some (Hd \<lparr>handle = Ptr 1 0, algo = MHD_GNUTLS_COMP_DEFLATE\<rparr>),
                  Some (Zs \<lparr>next_in = Ptr 7 4, avail_in = 0, next_out = Ptr 5 2056,
                            avail_out = 0, internal = ()\<rparr>),
                  None, None, None, None],
         alloc_ok = [],
         alloc_log = [(520, True), (1032, True), (1544, True), (2056, True)]\<rparr>)
   \<and> \<not> (1032 :: size_t) < 600
   \<and> mhd_gtls_decompress 2048 full_transform (Ptr 0 0) (Ptr 7 0) 4 NULL 600 demo_memory =
     Returns (GNUTLS_E_DECOMPRESSION_FAILED, NULL,
       \<lparr>blocks = [Some (Hd \<lparr>handle = Ptr 1 0, algo = MHD_GNUTLS_COMP_DEFLATE\<rparr>),
                  Some (Zs \<lparr>next_in = Ptr 7 0, avail_in = 4, next_out = Ptr 3 520,
                            avail_out = 0, internal = ()\<rparr>),
                  None, None],
         alloc_ok = [],
         alloc_log = [(520, True), (1032, True)]\<rparr>)"
  by code_simp

subsection \<open>The upfront bound check\<close>

text \<open>
  C3. When the compressed length is strictly greater than the maximum output size plus
  \<^verbatim>\<open>EXTRA_COMP_SIZE\<close>, \<^verbatim>\<open>mhd_gtls_decompress\<close> fails with the decompression failure
  code whatever the engine is, and the store (the handle and its stream included) and the
  caller's output pointer are what they were: the engine is not called.
\<close>

theorem C3_oversized_input_rejected:
  "unat max_record_size + unat extra < unat compressed_size \<Longrightarrow>
   mhd_gtls_decompress extra inflate hdl compressed compressed_size plain max_record_size m =
     Returns (GNUTLS_E_DECOMPRESSION_FAILED, plain, m)"
  by (rule upfront_reject)

theorem C3_oversized_input_rejected_witness:
  "unat (100 :: size_t) + unat (2048 :: size_t) < unat (5000 :: size_t)
   \<and> mhd_gtls_decompress 2048 store_transform (Ptr 0 0) (Ptr 7 0) 5000 NULL 100 demo_memory =
       Returns (GNUTLS_E_DECOMPRESSION_FAILED, NULL, demo_memory)"
proof -
  have h: "unat (100 :: size_t) + unat (2048 :: size_t) < unat (5000 :: size_t)" by simp
  from h C3_oversized_input_rejected [OF h] show ?thesis by blast
qed

text \<open>
  C10. The size check comes before the handle check: a null handle with an oversized
  input gives the decompression failure code, and a null handle gives the internal error
  only when the input passes the size check, where it always does.
\<close>

theorem C10_size_check_before_handle_check:
  "(unat max_record_size + unat extra < unat compressed_size \<longrightarrow>
      mhd_gtls_decompress extra inflate NULL compressed compressed_size plain
        max_record_size m = Returns (GNUTLS_E_DECOMPRESSION_FAILED, plain, m))
   \<and> (mhd_gtls_decompress extra inflate NULL compressed compressed_size plain
        max_record_size m = Returns (GNUTLS_E_INTERNAL_ERROR, p, m') \<longrightarrow>
      unat compressed_size \<le> unat max_record_size + unat extra)
   \<and> (\<not> max_record_size + extra < compressed_size \<longrightarrow>
      mhd_gtls_decompress extra inflate NULL compressed compressed_size plain
        max_record_size m = Returns (GNUTLS_E_INTERNAL_ERROR, plain, m))"
proof (intro conjI impI)
  assume "unat max_record_size + unat extra < unat compressed_size"
  then show "mhd_gtls_decompress extra inflate NULL compressed compressed_size plain
        max_record_size m = Returns (GNUTLS_E_DECOMPRESSION_FAILED, plain, m)"
    by (rule upfront_reject)
next
  assume r: "mhd_gtls_decompress extra inflate NULL compressed compressed_size plain
        max_record_size m = Returns (GNUTLS_E_INTERNAL_ERROR, p, m')"
  show "unat compressed_size \<le> unat max_record_size + unat extra"
  proof (rule ccontr)
    assume "\<not> unat compressed_size \<le> unat max_record_size + unat extra"
    then have "unat max_record_size + unat extra < unat compressed_size" by simp
    from upfront_reject [OF this, of inflate NULL compressed plain m] r
    show False
      by (simp add: GNUTLS_E_DECOMPRESSION_FAILED_def GNUTLS_E_INTERNAL_ERROR_def)
  qed
next
  assume "\<not> max_record_size + extra < compressed_size"
  then show "mhd_gtls_decompress extra inflate NULL compressed compressed_size plain
        max_record_size m = Returns (GNUTLS_E_INTERNAL_ERROR, plain, m)"
    by (simp add: mhd_gtls_decompress_def)
qed

theorem C10_size_check_before_handle_check_witness:
  "unat (100 :: size_t) + unat (2048 :: size_t) < unat (5000 :: size_t)
   \<and> mhd_gtls_decompress 2048 store_transform NULL (Ptr 7 0) 5000 NULL 100 demo_memory =
       Returns (GNUTLS_E_DECOMPRESSION_FAILED, NULL, demo_memory)
   \<and> \<not> (100 :: size_t) + 2048 < 3
   \<and> mhd_gtls_decompress 2048 store_transform NULL (Ptr 7 0) 3 NULL 100 demo_memory =
       Returns (GNUTLS_E_INTERNAL_ERROR, NULL, demo_memory)
   \<and> unat (3 :: size_t) \<le> unat (100 :: size_t) + unat (2048 :: size_t)"
proof -
  have h1: "unat (100 :: size_t) + unat (2048 :: size_t) < unat (5000 :: size_t)" by simp
  have h2: "\<not> (100 :: size_t) + 2048 < 3" by simp
  note a = C10_size_check_before_handle_check
    [of 100 2048 5000 store_transform "Ptr 7 0" NULL demo_memory, THEN conjunct1, rule_format, OF h1]
  note c = C10_size_check_before_handle_check
    [of 100 2048 3 store_transform "Ptr 7 0" NULL demo_memory, THEN conjunct2, THEN conjunct2,
     rule_format, OF h2]
  note b = C10_size_check_before_handle_check
    [of 100 2048 3 store_transform "Ptr 7 0" NULL demo_memory NULL demo_memory,
     THEN conjunct2, THEN conjunct1, rule_format, OF c]
  from h1 h2 a b c show ?thesis by blast
qed

subsection \<open>Success and failure of compress\<close>

text \<open>
  C5, as amended. For a call of \<^verbatim>\<open>mhd_gtls_compress\<close> with a valid deflate-family
  handle whose buffer allocation succeeds: the call returns a non-negative length if and
  only if the one \<^verbatim>\<open>deflate\<close> call reports OK, leaves no input unconsumed, and the
  resulting length is non-negative as an \<^verbatim>\<open>int\<close> and at most \<^verbatim>\<open>max_comp_size\<close> (the
  check after the \<^verbatim>\<open>switch\<close>). If the engine reports another status or leaves input,
  the call fails with the compression failure code, the output pointer is null and the
  buffer (the block allocated by the call) is released.
\<close>

theorem C5_compress_success_condition:
  assumes hd: "get_hd m hdl = Some h" and al: "algo h = MHD_GNUTLS_COMP_DEFLATE"
    and zs: "get_zs m (handle h) = Some z" and ok: "next_ok m"
    and call: "deflate (z\<lparr>next_in := plain, avail_in := ucast plain_size,
                  next_out := Ptr (length (blocks m)) 0,
                  avail_out := ucast ((plain_size + plain_size) + 10)\<rparr>) Z_SYNC_FLUSH = (err, z')"
  shows "((\<exists>r p m'. mhd_gtls_compress deflate hdl plain plain_size compressed max_comp_size m =
                      Returns (r, p, m') \<and> 0 \<le> sint r)
          \<longleftrightarrow> err = Z_OK \<and> avail_in z' = 0
              \<and> 0 \<le> sint (ucast (((plain_size + plain_size) + 10) - ucast (avail_out z')) :: c_int)
              \<and> sint (ucast (((plain_size + plain_size) + 10) - ucast (avail_out z')) :: c_int)
                   \<le> uint max_comp_size)
       \<and> (err \<noteq> Z_OK \<or> avail_in z' \<noteq> 0 \<longrightarrow>
            (\<exists>m'. mhd_gtls_compress deflate hdl plain plain_size compressed max_comp_size m =
                     Returns (GNUTLS_E_COMPRESSION_FAILED, NULL, m')
                   \<and> lookup m' (length (blocks m)) = None))"
proof -
  let ?len = "ucast (((plain_size + plain_size) + 10) - ucast (avail_out z')) :: c_int"
  from hd have nn: "hdl \<noteq> NULL" by (cases hdl) simp_all
  note sw = compress_switch_deflate [where deflate = deflate and compressed = compressed,
      OF hd al zs call]
  show ?thesis
  proof (cases "err \<noteq> Z_OK \<or> avail_in z' \<noteq> 0")
    case True
    then have "mhd_gtls_compress deflate hdl plain plain_size compressed max_comp_size m =
        Returns (GNUTLS_E_COMPRESSION_FAILED, NULL,
          gnutls_free (put_obj (snd (gnutls_malloc m ((plain_size + plain_size) + 10)))
                           (handle h) (Zs z')) (Ptr (length (blocks m)) 0))"
      using nn ok sw by (simp add: mhd_gtls_compress_def)
    with True codes_negative(1) show ?thesis
      by (auto simp del: gnutls_free.simps simp: lookup_free)
  next
    case False
    then have br: "compress_switch deflate hdl plain plain_size compressed m =
        Returns (Break (?len, Ptr (length (blocks m)) 0,
            put_obj (snd (gnutls_malloc m ((plain_size + plain_size) + 10)))
              (handle h) (Zs z')))"
      using ok sw by simp
    show ?thesis
    proof (cases "max_comp_size < scast ?len")
      case True
      then have "\<not> (0 \<le> sint ?len \<and> sint ?len \<le> uint max_comp_size)"
        using uint_scast_nonneg[of ?len] by (auto simp: word_less_def)
      moreover have "mhd_gtls_compress deflate hdl plain plain_size compressed max_comp_size m =
        Returns (GNUTLS_E_COMPRESSION_FAILED, NULL,
          gnutls_free (put_obj (snd (gnutls_malloc m ((plain_size + plain_size) + 10)))
                           (handle h) (Zs z')) (Ptr (length (blocks m)) 0))"
        using nn br True by (simp add: mhd_gtls_compress_def)
      ultimately show ?thesis using False codes_negative(1)
        by (auto simp del: gnutls_free.simps simp: lookup_free)
    next
      case nlt: False
      then have r: "mhd_gtls_compress deflate hdl plain plain_size compressed max_comp_size m =
        Returns (?len, Ptr (length (blocks m)) 0,
            put_obj (snd (gnutls_malloc m ((plain_size + plain_size) + 10)))
              (handle h) (Zs z'))"
        using nn br by (simp add: mhd_gtls_compress_def)
      show ?thesis using False r post_check_bound[OF nlt] by auto
    qed
  qed
qed

theorem C5_compress_success_condition_witness:
  "get_hd demo_memory (Ptr 0 0) = Some \<lparr>handle = Ptr 1 0, algo = MHD_GNUTLS_COMP_DEFLATE\<rparr>
   \<and> get_zs demo_memory (Ptr 1 0) =
       Some \<lparr>next_in = NULL, avail_in = 0, next_out = NULL, avail_out = 0, internal = ()\<rparr>
   \<and> next_ok demo_memory
   \<and> (\<exists>r p m'. mhd_gtls_compress store_transform (Ptr 0 0) (Ptr 7 0) 3 NULL 100 demo_memory =
          Returns (r, p, m') \<and> 0 \<le> sint r)
   \<and> (\<exists>m'. mhd_gtls_compress stall_transform (Ptr 0 0) (Ptr 7 0) 3 NULL 100 demo_memory =
          Returns (GNUTLS_E_COMPRESSION_FAILED, NULL, m')
        \<and> lookup m' (length (blocks demo_memory)) = None)"
proof -
  let ?h = "\<lparr>handle = Ptr 1 0, algo = MHD_GNUTLS_COMP_DEFLATE\<rparr>"
  have al: "algo ?h = MHD_GNUTLS_COMP_DEFLATE" by simp
  have zs: "get_zs demo_memory (handle ?h) =
       Some \<lparr>next_in = NULL, avail_in = 0, next_out = NULL, avail_out = 0, internal = ()\<rparr>"
    using demo_handle(2) by simp
  note a = C5_compress_success_condition [where deflate = store_transform
      and compressed = NULL and max_comp_size = 100,
      OF demo_handle(1) al zs demo_handle(3) demo_store_call]
  note b = C5_compress_success_condition [where deflate = stall_transform
      and compressed = NULL and max_comp_size = 100,
      OF demo_handle(1) al zs demo_handle(3) demo_stall_call]
  have "\<exists>r p m'. mhd_gtls_compress store_transform (Ptr 0 0) (Ptr 7 0) 3 NULL 100 demo_memory =
          Returns (r, p, m') \<and> 0 \<le> sint r"
    using a [THEN conjunct1] by simp
  moreover have "\<exists>m'. mhd_gtls_compress stall_transform (Ptr 0 0) (Ptr 7 0) 3 NULL 100 demo_memory =
          Returns (GNUTLS_E_COMPRESSION_FAILED, NULL, m')
        \<and> lookup m' (length (blocks demo_memory)) = None"
    using b [THEN conjunct2] by simp
  ultimately show ?thesis using demo_handle by simp
qed

text \<open>
  C5 as stated fails: the engine reports OK and consumes all three input bytes, and the
  call still fails, because the length 3 exceeds \<^verbatim>\<open>max_comp_size = 2\<close>.
\<close>

theorem C5_engine_ok_yet_failure:
  "store_transform
     \<lparr>next_in = Ptr 7 0, avail_in = 3, next_out = Ptr 2 0, avail_out = 16, internal = ()\<rparr>
     Z_SYNC_FLUSH =
     (Z_OK, \<lparr>next_in = Ptr 7 3, avail_in = 0, next_out = Ptr 2 3, avail_out = 13,
             internal = ()\<rparr>)
   \<and> mhd_gtls_compress store_transform (Ptr 0 0) (Ptr 7 0) 3 NULL 2 demo_memory =
       Returns (GNUTLS_E_COMPRESSION_FAILED, NULL,
        \<lparr>blocks = [Some (Hd \<lparr>handle = Ptr 1 0, algo = MHD_GNUTLS_COMP_DEFLATE\<rparr>),
                   Some (Zs \<lparr>next_in = Ptr 7 3, avail_in = 0, next_out = Ptr 2 3,
                             avail_out = 13, internal = ()\<rparr>), None],
         alloc_ok = [], alloc_log = [(16, True)]\<rparr>)
   \<and> sint GNUTLS_E_COMPRESSION_FAILED < 0"
  by (simp add: demo_compress codes_negative)
     (simp add: store_transform_def Z_OK_def Z_BUF_ERROR_def)

text \<open>
  C8. For a call of \<^verbatim>\<open>mhd_gtls_compress\<close> with a valid deflate-family handle and input
  length \<open>n = plain_size\<close>: the one allocation request of the call is for
  \<open>(n + n) + 10\<close> bytes in \<^verbatim>\<open>size_t\<close> arithmetic, which is exactly \<open>2 * n + 10\<close> whenever
  that number fits \<^verbatim>\<open>size_t\<close>; a successful call returns that block; and with an engine
  that never reports more remaining output space than it was given, every non-negative
  length returned is at most the capacity, hence at most \<open>2 * n + 10\<close>.
\<close>

theorem C8_compress_buffer_capacity:
  assumes hd: "get_hd m hdl = Some h" and al: "algo h = MHD_GNUTLS_COMP_DEFLATE"
    and zs: "get_zs m (handle h) = Some z"
  shows "(\<exists>r p m'. mhd_gtls_compress deflate hdl plain plain_size compressed max_comp_size m =
            Returns (r, p, m')
          \<and> alloc_log m' = alloc_log m @ [((plain_size + plain_size) + 10, next_ok m)]
          \<and> (0 \<le> sint r \<longrightarrow>
               p = Ptr (length (blocks m)) 0
               \<and> lookup m' (length (blocks m)) = Some (Raw ((plain_size + plain_size) + 10)))
          \<and> (space_monotone deflate \<longrightarrow> 0 \<le> sint r \<longrightarrow>
               sint r \<le> uint ((plain_size + plain_size) + 10)
               \<and> sint r \<le> 2 * uint plain_size + 10))
       \<and> (2 * unat plain_size + 10 < 2 ^ 64 \<longrightarrow>
            unat ((plain_size + plain_size) + 10) = 2 * unat plain_size + 10)"
proof (rule conjI)
  let ?n = "(plain_size + plain_size) + 10"
  let ?zin = "z\<lparr>next_in := plain, avail_in := ucast plain_size,
                  next_out := Ptr (length (blocks m)) 0, avail_out := ucast ?n\<rparr>"
  obtain err z' where call: "deflate ?zin Z_SYNC_FLUSH = (err, z')"
    by (cases "deflate ?zin Z_SYNC_FLUSH")
  from hd have nn: "hdl \<noteq> NULL" by (cases hdl) simp_all
  from zs obtain b where b: "handle h = Ptr b 0" "b < length (blocks m)"
    by (rule get_zs_Some)
  note sw = compress_switch_deflate [where deflate = deflate and compressed = compressed,
      OF hd al zs call]
  let ?len = "ucast (?n - ucast (avail_out z')) :: c_int"
  let ?m2 = "put_obj (snd (gnutls_malloc m ?n)) (handle h) (Zs z')"
  have bound: "sint ?len \<le> uint ?n \<and> sint ?len \<le> 2 * uint plain_size + 10"
    if mono: "space_monotone deflate" and pos: "0 \<le> sint ?len"
  proof -
    from mono have "avail_out (snd (deflate ?zin Z_SYNC_FLUSH)) \<le> avail_out ?zin"
      unfolding space_monotone_def by blast
    then have "avail_out z' \<le> ucast ?n" unfolding call by simp
    from trunc_len_le [OF this pos] size_le [of plain_size] show ?thesis by linarith
  qed
  consider (nomem) "\<not> next_ok m"
    | (fail) "next_ok m" "err \<noteq> Z_OK \<or> avail_in z' \<noteq> 0"
    | (big) "next_ok m" "\<not> (err \<noteq> Z_OK \<or> avail_in z' \<noteq> 0)" "max_comp_size < scast ?len"
    | (good) "next_ok m" "\<not> (err \<noteq> Z_OK \<or> avail_in z' \<noteq> 0)" "\<not> max_comp_size < scast ?len"
    by blast
  then show "\<exists>r p m'. mhd_gtls_compress deflate hdl plain plain_size compressed max_comp_size m =
            Returns (r, p, m')
          \<and> alloc_log m' = alloc_log m @ [(?n, next_ok m)]
          \<and> (0 \<le> sint r \<longrightarrow>
               p = Ptr (length (blocks m)) 0
               \<and> lookup m' (length (blocks m)) = Some (Raw ?n))
          \<and> (space_monotone deflate \<longrightarrow> 0 \<le> sint r \<longrightarrow>
               sint r \<le> uint ?n \<and> sint r \<le> 2 * uint plain_size + 10)"
  proof cases
    case nomem
    then have "mhd_gtls_compress deflate hdl plain plain_size compressed max_comp_size m =
        Returns (GNUTLS_E_MEMORY_ERROR, NULL, snd (gnutls_malloc m ?n))"
      using nn sw by (simp add: mhd_gtls_compress_def)
    then show ?thesis using codes_negative(3) by (simp add: malloc_log)
  next
    case fail
    then have "mhd_gtls_compress deflate hdl plain plain_size compressed max_comp_size m =
        Returns (GNUTLS_E_COMPRESSION_FAILED, NULL, gnutls_free ?m2 (Ptr (length (blocks m)) 0))"
      using nn sw by (simp add: mhd_gtls_compress_def)
    then show ?thesis using codes_negative(1) by (simp add: malloc_log)
  next
    case big
    then have "mhd_gtls_compress deflate hdl plain plain_size compressed max_comp_size m =
        Returns (GNUTLS_E_COMPRESSION_FAILED, NULL, gnutls_free ?m2 (Ptr (length (blocks m)) 0))"
      using nn sw by (simp add: mhd_gtls_compress_def)
    then show ?thesis using codes_negative(1) by (simp add: malloc_log)
  next
    case good
    then have r: "mhd_gtls_compress deflate hdl plain plain_size compressed max_comp_size m =
        Returns (?len, Ptr (length (blocks m)) 0, ?m2)"
      using nn sw by (simp add: mhd_gtls_compress_def)
    have "lookup ?m2 (length (blocks m)) = Some (Raw ?n)"
      using b good(1) by (simp add: lookup_put lookup_malloc del: put_obj.simps)
    with r bound show ?thesis by (simp add: malloc_log)
  qed
next
  show "2 * unat plain_size + 10 < 2 ^ 64 \<longrightarrow>
            unat ((plain_size + plain_size) + 10) = 2 * unat plain_size + 10"
    by (rule impI) (rule size_exact)
qed

theorem C8_compress_buffer_capacity_witness:
  "get_hd demo_memory (Ptr 0 0) = Some \<lparr>handle = Ptr 1 0, algo = MHD_GNUTLS_COMP_DEFLATE\<rparr>
   \<and> get_zs demo_memory (Ptr 1 0) =
       Some \<lparr>next_in = NULL, avail_in = 0, next_out = NULL, avail_out = 0, internal = ()\<rparr>
   \<and> space_monotone (store_transform :: unit transform)
   \<and> 2 * unat (3 :: size_t) + 10 < 2 ^ 64
   \<and> unat (((3 :: size_t) + 3) + 10) = 2 * unat (3 :: size_t) + 10
   \<and> (\<exists>m'. mhd_gtls_compress store_transform (Ptr 0 0) (Ptr 7 0) 3 NULL 100 demo_memory =
          Returns (3, Ptr 2 0, m')
        \<and> alloc_log m' = [(16, True)] \<and> lookup m' 2 = Some (Raw 16))
   \<and> sint (3 :: c_int) \<le> 2 * uint (3 :: size_t) + 10"
proof -
  let ?h = "\<lparr>handle = Ptr 1 0, algo = MHD_GNUTLS_COMP_DEFLATE\<rparr>"
  have al: "algo ?h = MHD_GNUTLS_COMP_DEFLATE" by simp
  have zs: "get_zs demo_memory (handle ?h) =
       Some \<lparr>next_in = NULL, avail_in = 0, next_out = NULL, avail_out = 0, internal = ()\<rparr>"
    using demo_handle(2) by simp
  have small: "2 * unat (3 :: size_t) + 10 < 2 ^ 64" by simp
  note T = C8_compress_buffer_capacity [where deflate = store_transform
      and plain = "Ptr 7 0" and plain_size = 3 and compressed = NULL and max_comp_size = 100,
      OF demo_handle(1) al zs]
  from T [THEN conjunct2] small
  have ex: "unat (((3 :: size_t) + 3) + 10) = 2 * unat (3 :: size_t) + 10" by blast
  from T [THEN conjunct1] obtain r p m' where
    r: "mhd_gtls_compress store_transform (Ptr 0 0) (Ptr 7 0) 3 NULL 100 demo_memory =
          Returns (r, p, m')"
    and lg: "alloc_log m' = alloc_log demo_memory @ [(((3 :: size_t) + 3) + 10, next_ok demo_memory)]"
    and buf: "0 \<le> sint r \<longrightarrow> p = Ptr (length (blocks demo_memory)) 0
               \<and> lookup m' (length (blocks demo_memory)) = Some (Raw (((3 :: size_t) + 3) + 10))"
    and bd: "space_monotone (store_transform :: unit transform) \<longrightarrow> 0 \<le> sint r \<longrightarrow>
               sint r \<le> uint (((3 :: size_t) + 3) + 10) \<and> sint r \<le> 2 * uint (3 :: size_t) + 10"
    by blast
  from r have r3: "r = 3" "p = Ptr 2 0" by (simp_all add: demo_compress)
  from lg have lg': "alloc_log m' = [(16, True)]" by (simp add: demo_handle)
  from buf r3 have buf': "lookup m' 2 = Some (Raw 16)" by (simp add: demo_handle)
  have pos: "0 \<le> sint (3 :: c_int)" by simp
  from bd [unfolded r3, rule_format, OF space_monotone_store pos]
  have bd': "sint (3 :: c_int) \<le> 2 * uint (3 :: size_t) + 10" by (rule conjunct2)
  from r r3 lg' buf' bd' ex small demo_handle space_monotone_store show ?thesis by blast
qed

subsection \<open>Allocation failures\<close>

text \<open>
  C6. Whenever a request to the allocator fails during \<^verbatim>\<open>mhd_gtls_comp_init\<close>,
  \<^verbatim>\<open>mhd_gtls_compress\<close> or \<^verbatim>\<open>mhd_gtls_decompress\<close> (the log of the call holds a failed
  request, at whatever pass of the growth loop): initialisation returns the null handle,
  compress and decompress return the out-of-memory code with a null output pointer, and
  the live blocks of the store after the call are exactly those before it, so every block
  the call had allocated is released and nothing else is.
\<close>

theorem C6_allocation_failure_is_clean:
  "(mhd_gtls_comp_init E method d m = (ret, m') \<longrightarrow>
      (n, False) \<in> set (drop (length (alloc_log m)) (alloc_log m')) \<longrightarrow>
      ret = NULL \<and> dom (lookup m') = dom (lookup m))
   \<and> (mhd_gtls_compress deflate hdl plain plain_size compressed max_comp_size mc =
        Returns (rc, pc, mc') \<longrightarrow>
      (nc, False) \<in> set (drop (length (alloc_log mc)) (alloc_log mc')) \<longrightarrow>
      rc = GNUTLS_E_MEMORY_ERROR \<and> pc = NULL \<and> dom (lookup mc') = dom (lookup mc))
   \<and> (mhd_gtls_decompress extra inflate hdl' cmp compressed_size plain' max_record_size md =
        Returns (rd, pd, md') \<longrightarrow>
      (nd, False) \<in> set (drop (length (alloc_log md)) (alloc_log md')) \<longrightarrow>
      rd = GNUTLS_E_MEMORY_ERROR \<and> pd = NULL \<and> dom (lookup md') = dom (lookup md))"
  using init_failure_clean [of E "method" d m ret m' n]
    compress_failure_clean [of deflate hdl plain plain_size compressed max_comp_size mc
      rc pc mc' nc]
    decompress_failure_clean [of extra inflate hdl' cmp compressed_size plain'
      max_record_size md rd pd md' nd]
  by blast

theorem C6_allocation_failure_is_clean_witness:
  "(\<exists>m'. mhd_gtls_comp_init demo_engine MHD_GNUTLS_COMP_DEFLATE True
            (empty_memory_with [True, False]) = (NULL, m')
         \<and> (112, False) \<in> set (drop (length (alloc_log (empty_memory_with [True, False])))
                                     (alloc_log m'))
         \<and> dom (lookup m') = dom (lookup (empty_memory_with [True, False])))
   \<and> (\<exists>m'. mhd_gtls_compress store_transform (Ptr 0 0) (Ptr 7 0) 3 NULL 100
            (demo_memory_with [False]) = Returns (GNUTLS_E_MEMORY_ERROR, NULL, m')
         \<and> (16, False) \<in> set (drop (length (alloc_log (demo_memory_with [False])))
                                    (alloc_log m'))
         \<and> dom (lookup m') = dom (lookup (demo_memory_with [False])))
   \<and> (\<exists>m'. mhd_gtls_decompress 2048 stall_transform (Ptr 0 0) (Ptr 7 0) 1 NULL 100
            (demo_memory_with [True, False]) = Returns (GNUTLS_E_MEMORY_ERROR, NULL, m')
         \<and> (1026, False) \<in> set (drop (length (alloc_log (demo_memory_with [True, False])))
                                      (alloc_log m'))
         \<and> dom (lookup m') = dom (lookup (demo_memory_with [True, False])))"
proof -
  note T = C6_allocation_failure_is_clean
  have f1: "(112, False) \<in> set (drop (length (alloc_log (empty_memory_with [True, False])))
      (alloc_log \<lparr>blocks = [None], alloc_ok = [], alloc_log = [(16, True), (112, False)]\<rparr>))"
    by (simp add: empty_memory_with_def)
  have f2: "(16, False) \<in> set (drop (length (alloc_log (demo_memory_with [False])))
      (alloc_log \<lparr>blocks = [Some (Hd \<lparr>handle = Ptr 1 0, algo = MHD_GNUTLS_COMP_DEFLATE\<rparr>),
                    Some (Zs \<lparr>next_in = NULL, avail_in = 0, next_out = NULL, avail_out = 0,
                              internal = ()\<rparr>)],
           alloc_ok = [], alloc_log = [(16, False)]\<rparr>))"
    by (simp add: demo_memory_with_def demo_memory_def)
  have f3: "(1026, False) \<in> set (drop (length (alloc_log (demo_memory_with [True, False])))
      (alloc_log \<lparr>blocks = [Some (Hd \<lparr>handle = Ptr 1 0, algo = MHD_GNUTLS_COMP_DEFLATE\<rparr>),
                    Some (Zs \<lparr>next_in = Ptr 7 0, avail_in = 1, next_out = Ptr 2 0,
                              avail_out = 514, internal = ()\<rparr>), None],
           alloc_ok = [], alloc_log = [(514, True), (1026, False)]\<rparr>))"
    by (simp add: demo_memory_with_def demo_memory_def)
  from T [THEN conjunct1, rule_format, OF demo_init_fails f1] demo_init_fails f1
  have a: "\<exists>m'. mhd_gtls_comp_init demo_engine MHD_GNUTLS_COMP_DEFLATE True
            (empty_memory_with [True, False]) = (NULL, m')
         \<and> (112, False) \<in> set (drop (length (alloc_log (empty_memory_with [True, False])))
                                     (alloc_log m'))
         \<and> dom (lookup m') = dom (lookup (empty_memory_with [True, False]))"
    by blast
  from T [THEN conjunct2, THEN conjunct1, rule_format, OF demo_compress_fails f2]
    demo_compress_fails f2
  have b: "\<exists>m'. mhd_gtls_compress store_transform (Ptr 0 0) (Ptr 7 0) 3 NULL 100
            (demo_memory_with [False]) = Returns (GNUTLS_E_MEMORY_ERROR, NULL, m')
         \<and> (16, False) \<in> set (drop (length (alloc_log (demo_memory_with [False])))
                                    (alloc_log m'))
         \<and> dom (lookup m') = dom (lookup (demo_memory_with [False]))"
    by blast
  from T [THEN conjunct2, THEN conjunct2, rule_format, OF demo_decompress_fails f3]
    demo_decompress_fails f3
  have c: "\<exists>m'. mhd_gtls_decompress 2048 stall_transform (Ptr 0 0) (Ptr 7 0) 1 NULL 100
            (demo_memory_with [True, False]) = Returns (GNUTLS_E_MEMORY_ERROR, NULL, m')
         \<and> (1026, False) \<in> set (drop (length (alloc_log (demo_memory_with [True, False])))
                                      (alloc_log m'))
         \<and> dom (lookup m') = dom (lookup (demo_memory_with [True, False]))"
    by blast
  from a b c show ?thesis by blast
qed

subsection \<open>Failure of decompress\<close>

text \<open>
  C7. For a call of \<^verbatim>\<open>mhd_gtls_decompress\<close> with a valid deflate-family handle whose
  growth loop is left with a status other than OK: the call fails with the decompression
  failure code, the output pointer is null, the buffer of the last pass is released, and
  the live blocks of the store are those before the call. More generally, for a
  \<^verbatim>\<open>max_record_size\<close> below \<open>2^64 - 2^31\<close> (every negative \<^verbatim>\<open>int\<close> converts to a
  \<^verbatim>\<open>size_t\<close> above it), every call that returns a negative value leaves the output
  pointer null, or untouched together with the whole store, and leaves no block of its
  own live.
\<close>

theorem C7_decompress_failure_releases_buffer:
  "(get_hd m hdl = Some h \<longrightarrow> algo h = MHD_GNUTLS_COMP_DEFLATE \<longrightarrow>
    get_zs m (handle h) = Some z \<longrightarrow> \<not> max_record_size + extra < compressed_size \<longrightarrow>
    inflate_loop inflate max_record_size
      (z\<lparr>next_in := compressed, avail_in := ucast compressed_size\<rparr>)
      NULL (compressed_size + compressed_size) 0 m = Some (Left err z' plain1 out_size m1) \<longrightarrow>
    err \<noteq> Z_OK \<longrightarrow>
      mhd_gtls_decompress extra inflate hdl compressed compressed_size plain max_record_size m =
        Returns (GNUTLS_E_DECOMPRESSION_FAILED, NULL,
                 gnutls_free (put_obj m1 (handle h) (Zs z')) plain1)
      \<and> (\<exists>b. plain1 = Ptr b 0 \<and> length (blocks m) \<le> b
              \<and> lookup m1 b = Some (Raw out_size)
              \<and> lookup (gnutls_free (put_obj m1 (handle h) (Zs z')) plain1) b = None)
      \<and> dom (lookup (gnutls_free (put_obj m1 (handle h) (Zs z')) plain1)) = dom (lookup m))
   \<and> (mhd_gtls_decompress extra inflate hdl compressed compressed_size plain max_record_size m =
        Returns (r, p, m') \<longrightarrow>
      sint r < 0 \<longrightarrow> uint max_record_size < 2 ^ 64 - 2 ^ 31 \<longrightarrow>
        (p = NULL \<or> (p = plain \<and> m' = m)) \<and> dom (lookup m') = dom (lookup m))"
proof (intro conjI impI)
  assume hd: "get_hd m hdl = Some h" and al: "algo h = MHD_GNUTLS_COMP_DEFLATE"
    and zs: "get_zs m (handle h) = Some z"
    and pass: "\<not> max_record_size + extra < compressed_size"
    and loop: "inflate_loop inflate max_record_size
      (z\<lparr>next_in := compressed, avail_in := ucast compressed_size\<rparr>)
      NULL (compressed_size + compressed_size) 0 m = Some (Left err z' plain1 out_size m1)"
    and err: "err \<noteq> Z_OK"
  from loop_blocks [OF loop] obtain k where
    bl: "blocks m1 = blocks m @ replicate k None @ [Some (Raw out_size)]"
    and p1: "plain1 = Ptr (length (blocks m) + k) 0" by auto
  from decompress_deflate [where inflate = inflate and c = compressed and plain = plain,
      OF hd al zs pass] loop err
  show "mhd_gtls_decompress extra inflate hdl compressed compressed_size plain
          max_record_size m =
        Returns (GNUTLS_E_DECOMPRESSION_FAILED, NULL,
                 gnutls_free (put_obj m1 (handle h) (Zs z')) plain1)"
    by (simp del: gnutls_free.simps put_obj.simps)
  have "lookup m1 (length (blocks m) + k) = Some (Raw out_size)"
    by (simp add: lookup_grown [OF bl])
  moreover have "lookup (gnutls_free (put_obj m1 (handle h) (Zs z')) plain1)
      (length (blocks m) + k) = None"
    unfolding p1 by (simp add: lookup_free del: gnutls_free.simps put_obj.simps)
  ultimately show "\<exists>b. plain1 = Ptr b 0 \<and> length (blocks m) \<le> b
              \<and> lookup m1 b = Some (Raw out_size)
              \<and> lookup (gnutls_free (put_obj m1 (handle h) (Zs z')) plain1) b = None"
    using p1 by (intro exI [where x = "length (blocks m) + k"]) simp
  from live_after_release [OF bl zs] p1
  show "dom (lookup (gnutls_free (put_obj m1 (handle h) (Zs z')) plain1)) = dom (lookup m)"
    by simp
next
  assume "mhd_gtls_decompress extra inflate hdl compressed compressed_size plain
      max_record_size m = Returns (r, p, m')"
    and "sint r < 0" and "uint max_record_size < 2 ^ 64 - 2 ^ 31"
  from decompress_failure_paths [OF this]
  show "p = NULL \<or> p = plain \<and> m' = m" and "dom (lookup m') = dom (lookup m)"
    by simp_all
qed

theorem C7_decompress_failure_releases_buffer_witness:
  "get_hd demo_memory (Ptr 0 0) = Some \<lparr>handle = Ptr 1 0, algo = MHD_GNUTLS_COMP_DEFLATE\<rparr>
   \<and> get_zs demo_memory (Ptr 1 0) =
       Some \<lparr>next_in = NULL, avail_in = 0, next_out = NULL, avail_out = 0, internal = ()\<rparr>
   \<and> \<not> (100 :: size_t) + 2048 < 3
   \<and> Z_BUF_ERROR \<noteq> Z_OK
   \<and> sint GNUTLS_E_DECOMPRESSION_FAILED < 0
   \<and> uint (100 :: size_t) < 2 ^ 64 - 2 ^ 31
   \<and> (\<exists>m'. mhd_gtls_decompress 2048 full_transform (Ptr 0 0) (Ptr 7 0) 3 NULL 100 demo_memory =
          Returns (GNUTLS_E_DECOMPRESSION_FAILED, NULL, m')
        \<and> lookup m' 2 = None
        \<and> dom (lookup m') = dom (lookup demo_memory))"
proof -
  let ?h = "\<lparr>handle = Ptr 1 0, algo = MHD_GNUTLS_COMP_DEFLATE\<rparr>"
  let ?z = "\<lparr>next_in = NULL, avail_in = 0, next_out = NULL, avail_out = 0, internal = ()\<rparr>"
  let ?z' = "\<lparr>next_in = Ptr 7 0, avail_in = 3, next_out = Ptr 2 0, avail_out = 0,
              internal = ()\<rparr>"
  let ?m1 = "\<lparr>blocks = [Some (Hd ?h), Some (Zs ?z), Some (Raw 518)],
       alloc_ok = [], alloc_log = [(518, True)]\<rparr>"
  have al: "algo ?h = MHD_GNUTLS_COMP_DEFLATE" by simp
  have zs: "get_zs demo_memory (handle ?h) = Some ?z" using demo_handle(2) by simp
  have pass: "\<not> (100 :: size_t) + 2048 < 3" by simp
  have small: "uint (100 :: size_t) < 2 ^ 64 - 2 ^ 31" by simp
  note T = C7_decompress_failure_releases_buffer [where inflate = full_transform
      and hdl = "Ptr 0 0" and h = ?h and z = ?z and m = demo_memory and extra = 2048
      and max_record_size = 100 and compressed = "Ptr 7 0" and compressed_size = 3
      and plain = NULL]
  from T [where err = Z_BUF_ERROR and z' = ?z' and ?plain1.0 = "Ptr 2 0" and out_size = 518
      and ?m1.0 = ?m1, THEN conjunct1, rule_format,
      OF demo_handle(1) al zs pass demo_full_loop buf_not_ok]
  have a: "mhd_gtls_decompress 2048 full_transform (Ptr 0 0) (Ptr 7 0) 3 NULL 100 demo_memory =
        Returns (GNUTLS_E_DECOMPRESSION_FAILED, NULL,
                 gnutls_free (put_obj ?m1 (handle ?h) (Zs ?z')) (Ptr 2 0))"
    and b: "lookup (gnutls_free (put_obj ?m1 (handle ?h) (Zs ?z')) (Ptr 2 0)) 2 = None"
    by (simp_all add: lookup_def)
  from T [where r = GNUTLS_E_DECOMPRESSION_FAILED and p = NULL
      and m' = "gnutls_free (put_obj ?m1 (handle ?h) (Zs ?z')) (Ptr 2 0)",
      THEN conjunct2, rule_format, OF a codes_negative(2) small]
  have c: "dom (lookup (gnutls_free (put_obj ?m1 (handle ?h) (Zs ?z')) (Ptr 2 0)))
             = dom (lookup demo_memory)"
    by (rule conjunct2)
  from a b c demo_handle(1,2) pass buf_not_ok codes_negative(2) small show ?thesis by blast
qed

subsection \<open>Termination of the growth loop\<close>

text \<open>
  C9, as amended. The growth loop returns from every state, and so
  \<^verbatim>\<open>mhd_gtls_decompress\<close> returns (or its behaviour is undefined, for an invalid handle),
  provided the engine makes progress and \<open>max_record_size + 512\<close> fits \<^verbatim>\<open>size_t\<close>, or
  provided some later request to the allocator fails. When the loop is left by its
  condition, the engine reported OK with all input consumed, or buffer-exhausted with
  output space left or the capacity at or above \<^verbatim>\<open>max_record_size\<close>, or a status other
  than OK and buffer-exhausted; the other way out is the failed reallocation.
\<close>

theorem C9_growth_loop_terminates:
  assumes "(makes_progress \<mu> inflate \<and> unat max_record_size + 512 < 2 ^ 64)
           \<or> False \<in> set (alloc_ok m)"
  shows "(\<exists>y. inflate_loop inflate max_record_size z plain out_size cur_pos m = Some y)
       \<and> mhd_gtls_decompress extra inflate hdl compressed compressed_size plain'
            max_record_size m \<noteq> Diverges
       \<and> (inflate_loop inflate max_record_size z plain out_size cur_pos m =
            Some (Left err z' p' os' m') \<longrightarrow>
            (err = Z_OK \<and> avail_in z' = 0)
            \<or> (err = Z_BUF_ERROR \<and> (avail_out z' \<noteq> 0 \<or> \<not> os' < max_record_size))
            \<or> (err \<noteq> Z_OK \<and> err \<noteq> Z_BUF_ERROR))"
proof (intro conjI impI)
  show "\<exists>y. inflate_loop inflate max_record_size z plain out_size cur_pos m = Some y"
    by (rule loop_returns [OF assms])
  show "mhd_gtls_decompress extra inflate hdl compressed compressed_size plain'
            max_record_size m \<noteq> Diverges"
  proof
    assume "mhd_gtls_decompress extra inflate hdl compressed compressed_size plain'
            max_record_size m = Diverges"
    from decompress_Diverges [OF this] obtain z0 where
      "inflate_loop inflate max_record_size z0 NULL (compressed_size + compressed_size) 0 m
         = None" ..
    with loop_returns [OF assms, of z0 NULL "compressed_size + compressed_size" 0]
    show False by simp
  qed
  assume "inflate_loop inflate max_record_size z plain out_size cur_pos m =
            Some (Left err z' p' os' m')"
  from loop_exit_condition [OF this]
  show "(err = Z_OK \<and> avail_in z' = 0)
            \<or> (err = Z_BUF_ERROR \<and> (avail_out z' \<noteq> 0 \<or> \<not> os' < max_record_size))
            \<or> (err \<noteq> Z_OK \<and> err \<noteq> Z_BUF_ERROR)"
    by blast
qed

theorem C9_growth_loop_terminates_witness:
  "makes_progress (\<lambda>z. unat (avail_in z)) (store_transform :: unit transform)
   \<and> unat (100 :: size_t) + 512 < 2 ^ 64
   \<and> (\<exists>y. inflate_loop store_transform 100
          \<lparr>next_in = Ptr 7 0, avail_in = 3, next_out = NULL, avail_out = 0, internal = ()\<rparr>
          NULL 6 0 demo_memory = Some y)
   \<and> mhd_gtls_decompress 2048 store_transform (Ptr 0 0) (Ptr 7 0) 3 NULL 100 demo_memory
        \<noteq> Diverges
   \<and> (\<exists>z' m'. inflate_loop store_transform 100
          \<lparr>next_in = Ptr 7 0, avail_in = 3, next_out = NULL, avail_out = 0, internal = ()\<rparr>
          NULL 6 0 demo_memory = Some (Left Z_OK z' (Ptr 2 0) 518 m')
        \<and> avail_in z' = 0)
   \<and> False \<in> set (alloc_ok (demo_memory_with [True, False]))
   \<and> mhd_gtls_decompress 2048 stall_transform (Ptr 0 0) (Ptr 7 0) 1 NULL 100
        (demo_memory_with [True, False]) \<noteq> Diverges"
proof -
  let ?z = "\<lparr>next_in = Ptr 7 0, avail_in = 3, next_out = NULL, avail_out = 0,
              internal = ()\<rparr> :: unit z_stream"
  have mx: "unat (100 :: size_t) + 512 < 2 ^ 64" by simp
  have h1: "(makes_progress (\<lambda>z. unat (avail_in z)) (store_transform :: unit transform)
              \<and> unat (100 :: size_t) + 512 < 2 ^ 64)
            \<or> False \<in> set (alloc_ok demo_memory)"
    using progress_store mx by blast
  have fl: "False \<in> set (alloc_ok (demo_memory_with [True, False]))"
    by (simp add: demo_memory_with_def)
  then have h2: "(makes_progress (\<lambda>z. unat (avail_in z)) (stall_transform :: unit transform)
              \<and> unat (100 :: size_t) + 512 < 2 ^ 64)
            \<or> False \<in> set (alloc_ok (demo_memory_with [True, False]))"
    by blast
  note T = C9_growth_loop_terminates [where inflate = "store_transform :: unit transform"
      and max_record_size = 100 and z = ?z and plain = NULL and out_size = 6 and cur_pos = 0
      and m = demo_memory and extra = 2048 and hdl = "Ptr 0 0" and compressed = "Ptr 7 0"
      and compressed_size = 3 and plain' = NULL, OF h1]
  note S = C9_growth_loop_terminates [where inflate = "stall_transform :: unit transform"
      and max_record_size = 100 and m = "demo_memory_with [True, False]" and extra = 2048
      and hdl = "Ptr 0 0" and compressed = "Ptr 7 0" and compressed_size = 1 and plain' = NULL,
      OF h2]
  from T have a: "\<exists>y. inflate_loop store_transform 100 ?z NULL 6 0 demo_memory = Some y"
    by (rule conjunct1)
  from T have b: "mhd_gtls_decompress 2048 store_transform (Ptr 0 0) (Ptr 7 0) 3 NULL 100
      demo_memory \<noteq> Diverges"
    by (rule conjunct2 [THEN conjunct1])
  from T [THEN conjunct2, THEN conjunct2, rule_format, OF demo_store_loop] buf_not_ok
  have "avail_in \<lparr>next_in = Ptr 7 3, avail_in = 0 :: uInt, next_out = Ptr 2 3,
          avail_out = 515 :: uInt, internal = ()\<rparr> = 0"
    by auto
  with demo_store_loop
  have c: "\<exists>z' m'. inflate_loop store_transform 100 ?z NULL 6 0 demo_memory =
             Some (Left Z_OK z' (Ptr 2 0) 518 m') \<and> avail_in z' = 0"
    by blast
  from S have d: "mhd_gtls_decompress 2048 stall_transform (Ptr 0 0) (Ptr 7 0) 1 NULL 100
        (demo_memory_with [True, False]) \<noteq> Diverges"
    by (rule conjunct2 [THEN conjunct1])
  from a b c d fl mx progress_store show ?thesis by blast
qed

text \<open>
  C9 as stated fails: with an engine that reports OK without consuming its one input
  byte, and an allocator that never fails, the loop grows the buffer forever and the call
  does not return; with an allocator that fails at its second request, the same call
  ends by the failed reallocation, with the out-of-memory code.
\<close>

theorem C9_stalling_engine_never_returns:
  "mhd_gtls_decompress 2048 stall_transform (Ptr 0 0) (Ptr 7 0) 1 NULL 100 demo_memory
     = Diverges
   \<and> mhd_gtls_decompress 2048 stall_transform (Ptr 0 0) (Ptr 7 0) 1 NULL 100
       (demo_memory_with [True, False])
     = Returns (GNUTLS_E_MEMORY_ERROR, NULL,
         \<lparr>blocks = [Some (Hd \<lparr>handle = Ptr 1 0, algo = MHD_GNUTLS_COMP_DEFLATE\<rparr>),
                    Some (Zs \<lparr>next_in = Ptr 7 0, avail_in = 1, next_out = Ptr 2 0,
                              avail_out = 514, internal = ()\<rparr>), None],
           alloc_ok = [], alloc_log = [(514, True), (1026, False)]\<rparr>)"
proof -
  have "inflate_loop stall_transform 100
      (\<lparr>next_in = NULL, avail_in = 0, next_out = NULL, avail_out = 0, internal = ()\<rparr>
         \<lparr>next_in := Ptr 7 0, avail_in := ucast (1 :: size_t)\<rparr>)
      NULL ((1 :: size_t) + 1) 0 demo_memory = None"
    by (rule stall_diverges) (simp_all add: demo_memory_def)
  then have "mhd_gtls_decompress 2048 stall_transform (Ptr 0 0) (Ptr 7 0) 1 NULL 100 demo_memory
     = Diverges"
    by (simp add: mhd_gtls_decompress_def decompress_switch_def demo_memory_def lookup_def)
  with demo_decompress_fails show ?thesis by (simp only: simp_thms)
qed

end
